theory Spec2Isabelle
  imports Complex_Main "HOL-Library.AList"
begin

section \<open>Python values, errors and arrays\<close>

text \<open>
  The module \<^verbatim>\<open>python/prophet/models.py\<close> adapts inference engines to the forecaster.
  Exceptions are values of \<open>py_error\<close>; a function that may raise returns
  \<open>py_error + 'a\<close>, with \<open>Inl\<close> for the raised exception.
\<close>

datatype py_error =
    RuntimeError string
  | ValueError string
  | KeyError string
  | IndexError string
  | TypeError string
  | AttributeError string

text \<open>
  A numpy array is its shape together with its elements in row-major order. The
  model never changes the elements of an array, so views and copies are not told apart.
\<close>

datatype 'a ndarray = NDArray (shape: "nat list") (elems: "'a list")

definition well_shaped :: "'a ndarray \<Rightarrow> bool" where
  "well_shaped a = (length (elems a) = prod_list (shape a))"

text \<open>
  \<^verbatim>\<open>a[start:end]\<close> with non-negative bounds: both bounds are clipped to the length
  of axis 0 and an empty range is returned when the stop is not beyond the start. A
  0-dimensional array cannot be indexed.
\<close>

fun slice_axis0 :: "'a ndarray \<Rightarrow> nat \<Rightarrow> nat \<Rightarrow> py_error + 'a ndarray" where
  "slice_axis0 (NDArray [] xs) start stop =
     Inl (IndexError ''too many indices for array'')"
| "slice_axis0 (NDArray (n # rest) xs) start stop =
     (let lo = min start n; len = min stop n - lo; inner = prod_list rest
      in Inr (NDArray (len # rest) (take (len * inner) (drop (lo * inner) xs))))"

text \<open>
  \<^verbatim>\<open>a[:, start:end]\<close>: every index of axis 0 keeps the range of axis 1. An array
  with fewer than two axes cannot be indexed twice.
\<close>

fun slice_axis1 :: "'a ndarray \<Rightarrow> nat \<Rightarrow> nat \<Rightarrow> py_error + 'a ndarray" where
  "slice_axis1 (NDArray (r # c # rest) xs) start stop =
     (let lo = min start c; len = min stop c - lo; inner = prod_list rest
      in Inr (NDArray (r # len # rest)
           (concat (map (\<lambda>i. take (len * inner) (drop ((i * c + lo) * inner) xs)) [0..<r]))))"
| "slice_axis1 (NDArray sh xs) start stop =
     Inl (IndexError ''too many indices for array'')"

section \<open>Column-name decoder\<close>

text \<open>
  \<^verbatim>\<open>str.split(sep)\<close> for a one-character separator: the pieces between the
  separators, never an empty list.
\<close>

fun split_on :: "char \<Rightarrow> string \<Rightarrow> string list" where
  "split_on sep [] = [[]]"
| "split_on sep (c # cs) =
     (if c = sep then [] # split_on sep cs
      else (case split_on sep cs of
              [] \<Rightarrow> [[c]]
            | p # ps \<Rightarrow> (c # p) # ps))"

text \<open>
  Lines 205-206: \<^verbatim>\<open>parsed = cname.split(".") if "." in cname else cname.split("[")\<close>,
  \<^verbatim>\<open>curr = parsed[0]\<close>.
\<close>

definition base_name :: "string \<Rightarrow> string" where
  "base_name cname =
     hd (if CHR ''.'' \<in> set cname then split_on CHR ''.'' cname
         else split_on CHR ''['' cname)"

text \<open>
  The loop state of \<^verbatim>\<open>stan_to_dict_numpy\<close>: the ordered dictionary built so far
  (an association list in insertion order), \<^verbatim>\<open>prev\<close> (\<open>None\<close> is Python's
  \<^verbatim>\<open>None\<close>), \<^verbatim>\<open>start\<close> and \<^verbatim>\<open>end\<close>.
\<close>

type_synonym 'a decoded = "(string option \<times> 'a ndarray) list"

type_synonym 'a scan_state = "'a decoded \<times> string option \<times> nat \<times> nat"

text \<open>
  Lines 211-216 and again 220-225: the membership test that raises, then the
  assignment of the slice to \<^verbatim>\<open>output[prev]\<close>.
\<close>

definition close_run ::
  "bool \<Rightarrow> 'a ndarray \<Rightarrow> 'a decoded \<Rightarrow> string option \<Rightarrow> nat \<Rightarrow> nat \<Rightarrow> py_error + 'a decoded" where
  "close_run two_dims dat output prev start stop =
     (if prev \<in> set (map fst output) then Inl (RuntimeError ''Found repeated column name'')
      else (case (if two_dims then slice_axis1 dat start stop else slice_axis0 dat start stop) of
              Inl e \<Rightarrow> Inl e
            | Inr v \<Rightarrow> Inr (AList.update prev v output)))"

text \<open>One iteration of the loop over \<^verbatim>\<open>column_names\<close> (lines 205-219).\<close>

fun scan_step :: "bool \<Rightarrow> 'a ndarray \<Rightarrow> 'a scan_state \<Rightarrow> string \<Rightarrow> py_error + 'a scan_state" where
  "scan_step two_dims dat (output, prev, start, stop) cname =
     (let curr = base_name cname;
          prev1 = (case prev of None \<Rightarrow> Some curr | Some p \<Rightarrow> Some p)
      in if Some curr \<noteq> prev1 then
           (case close_run two_dims dat output prev1 start stop of
              Inl e \<Rightarrow> Inl e
            | Inr output' \<Rightarrow> Inr (output', Some curr, stop, stop + 1))
         else Inr (output, prev1, start, stop + 1))"

fun scan_columns ::
  "bool \<Rightarrow> 'a ndarray \<Rightarrow> 'a scan_state \<Rightarrow> string list \<Rightarrow> py_error + 'a scan_state" where
  "scan_columns two_dims dat st [] = Inr st"
| "scan_columns two_dims dat st (cname # cnames) =
     (case scan_step two_dims dat st cname of
        Inl e \<Rightarrow> Inl e
      | Inr st' \<Rightarrow> scan_columns two_dims dat st' cnames)"

text \<open>Lines 220-226: after the loop the last run is closed, whatever was scanned.\<close>

definition scan_finish ::
  "bool \<Rightarrow> 'a ndarray \<Rightarrow> py_error + 'a scan_state \<Rightarrow> py_error + 'a decoded" where
  "scan_finish two_dims dat r =
     (case r of
        Inl e \<Rightarrow> Inl e
      | Inr (output, prev, start, stop) \<Rightarrow> close_run two_dims dat output prev start stop)"

definition stan_to_dict_numpy :: "string list \<Rightarrow> 'a ndarray \<Rightarrow> py_error + 'a decoded" where
  "stan_to_dict_numpy column_names dat =
     (let two_dims = (length (shape dat) > 1)
      in scan_finish two_dims dat (scan_columns two_dims dat ([], None, 0, 0) column_names))"

subsection \<open>What the decoder is meant to compute\<close>

text \<open>
  The base name in the words of the specification: the prefix before the first
  \<^verbatim>\<open>.\<close> or \<^verbatim>\<open>[\<close>. A column name is well formed when it uses at most one of
  the two delimiter conventions (\<^verbatim>\<open>name.index\<close> or \<^verbatim>\<open>name[index]\<close>).
\<close>

definition name_prefix :: "string \<Rightarrow> string" where
  "name_prefix cname = takeWhile (\<lambda>c. c \<noteq> CHR ''.'' \<and> c \<noteq> CHR ''['') cname"

definition well_formed_name :: "string \<Rightarrow> bool" where
  "well_formed_name cname = (\<not> (CHR ''.'' \<in> set cname \<and> CHR ''['' \<in> set cname))"

text \<open>
  A name reappears when it occurs at two positions with a different name somewhere
  in between; the names form contiguous runs when none reappears.
\<close>

definition reappears :: "'a list \<Rightarrow> bool" where
  "reappears xs = (\<exists>k<length xs. \<exists>j<k. \<exists>i<j. xs ! i = xs ! k \<and> xs ! j \<noteq> xs ! i)"

text \<open>The distinct elements of a list, each at its first occurrence.\<close>

fun first_occurrences :: "'a list \<Rightarrow> 'a list" where
  "first_occurrences [] = []"
| "first_occurrences (x # xs) = x # filter (\<lambda>y. y \<noteq> x) (first_occurrences xs)"

text \<open>The positions of the columns whose name has base name \<open>b\<close>, in increasing order.\<close>

definition columns_of :: "string list \<Rightarrow> string \<Rightarrow> nat list" where
  "columns_of names b = filter (\<lambda>i. name_prefix (names ! i) = b) [0..<length names]"

text \<open>
  The entries of a buffer at the given columns: of a vector with one entry per column,
  and of a matrix with \<open>n\<close> columns, row by row.
\<close>

definition take_entries :: "'a list \<Rightarrow> nat list \<Rightarrow> 'a ndarray" where
  "take_entries xs cols = NDArray [length cols] (map (\<lambda>j. xs ! j) cols)"

definition take_columns :: "nat \<Rightarrow> nat \<Rightarrow> 'a list \<Rightarrow> nat list \<Rightarrow> 'a ndarray" where
  "take_columns r n xs cols =
     NDArray [r, length cols] (concat (map (\<lambda>i. map (\<lambda>j. xs ! (i * n + j)) cols) [0..<r]))"

text \<open>
  The columns of a one- or two-dimensional buffer at the given positions
  (\<^verbatim>\<open>data[cols]\<close> and \<^verbatim>\<open>data[:, cols]\<close>).
\<close>

definition select_columns :: "'a ndarray \<Rightarrow> nat list \<Rightarrow> 'a ndarray" where
  "select_columns dat cols =
     (if length (shape dat) > 1
      then take_columns (shape dat ! 0) (shape dat ! 1) (elems dat) cols
      else take_entries (elems dat) cols)"

text \<open>
  The maximal runs of a sequence with their half-open position ranges, the first run
  being \<open>p\<close> on \<open>[s, e)\<close> and the rest of the sequence following at position \<open>e\<close>.
\<close>

fun runs_from :: "'a \<Rightarrow> nat \<Rightarrow> nat \<Rightarrow> 'a list \<Rightarrow> ('a \<times> nat \<times> nat) list" where
  "runs_from p s e [] = [(p, s, e)]"
| "runs_from p s e (b # bs) =
     (if b = p then runs_from p s (Suc e) bs else (p, s, e) # runs_from b e (Suc e) bs)"


section \<open>Dynamically typed values\<close>

text \<open>
  The values found in the dictionaries that callers pass: a \<open>PyArray\<close> is a numpy
  array (or a pandas series, which has the same \<^verbatim>\<open>shape\<close> and \<^verbatim>\<open>tolist\<close>), a
  \<open>PyFrame\<close> a pandas data frame given by its matrix, a \<open>PyDict\<close> a dictionary in
  insertion order. A dictionary that is only read or rebuilt is a map
  \<open>string \<rightharpoonup> pyval\<close>.
\<close>

datatype pyval =
    PyNone
  | PyBool bool
  | PyInt int
  | PyFloat real
  | PyStr string
  | PyArray "real ndarray"
  | PyFrame "real ndarray"
  | PyList "pyval list"
  | PyDict "(string \<times> pyval) list"

definition py_bind :: "py_error + 'a \<Rightarrow> ('a \<Rightarrow> py_error + 'b) \<Rightarrow> py_error + 'b" where
  "py_bind m f = (case m of Inl e \<Rightarrow> Inl e | Inr x \<Rightarrow> f x)"

text \<open>A \<^verbatim>\<open>for\<close> loop over a list whose body may raise.\<close>

fun for_each :: "('b \<Rightarrow> 'a \<Rightarrow> py_error + 'a) \<Rightarrow> 'b list \<Rightarrow> 'a \<Rightarrow> py_error + 'a" where
  "for_each body [] s = Inr s"
| "for_each body (x # xs) s = py_bind (body x s) (for_each body xs)"

text \<open>\<^verbatim>\<open>d[key]\<close> on a dictionary.\<close>

definition py_item :: "(string \<rightharpoonup> pyval) \<Rightarrow> string \<Rightarrow> py_error + pyval" where
  "py_item d key = (case d key of None \<Rightarrow> Inl (KeyError key) | Some v \<Rightarrow> Inr v)"

text \<open>\<^verbatim>\<open>d.get(key)\<close> on a dictionary: \<^verbatim>\<open>None\<close> for a missing key.\<close>

definition py_get :: "(string \<rightharpoonup> pyval) \<Rightarrow> string \<Rightarrow> pyval" where
  "py_get d key = (case d key of None \<Rightarrow> PyNone | Some v \<Rightarrow> v)"

text \<open>The attribute \<^verbatim>\<open>shape\<close>.\<close>

fun py_shape :: "pyval \<Rightarrow> py_error + nat list" where
  "py_shape (PyArray a) = Inr (shape a)"
| "py_shape (PyFrame a) = Inr (shape a)"
| "py_shape v = Inl (AttributeError ''shape'')"

text \<open>
  \<^verbatim>\<open>a.tolist()\<close>: nested lists of numbers, one level for each axis, and the number
  itself for an array without axes.
\<close>

fun nested_list :: "nat list \<Rightarrow> real list \<Rightarrow> pyval" where
  "nested_list [] xs = (case xs of [] \<Rightarrow> PyNone | x # _ \<Rightarrow> PyFloat x)"
| "nested_list (n # sh) xs =
     PyList (map (\<lambda>i. nested_list sh (take (prod_list sh) (drop (i * prod_list sh) xs))) [0..<n])"

fun py_tolist :: "pyval \<Rightarrow> py_error + pyval" where
  "py_tolist (PyArray a) = Inr (nested_list (shape a) (elems a))"
| "py_tolist v = Inl (AttributeError ''tolist'')"

fun py_to_numpy :: "pyval \<Rightarrow> py_error + pyval" where
  "py_to_numpy (PyFrame a) = Inr (PyArray a)"
| "py_to_numpy v = Inl (AttributeError ''to_numpy'')"

text \<open>
  \<^verbatim>\<open>v < n\<close> used as a condition, for an integer \<open>n\<close>: numbers compare, an array
  with a single element compares that element, any other array or frame has no truth
  value, and the other values do not compare with a number.
\<close>

fun py_less :: "pyval \<Rightarrow> int \<Rightarrow> py_error + bool" where
  "py_less (PyInt i) n = Inr (i < n)"
| "py_less (PyFloat x) n = Inr (x < of_int n)"
| "py_less (PyBool b) n = Inr ((if b then 1 else 0) < n)"
| "py_less (PyArray a) n =
     (case elems a of
        [x] \<Rightarrow> Inr (x < of_int n)
      | _ \<Rightarrow> Inl (ValueError ''The truth value of an array is ambiguous''))"
| "py_less (PyFrame a) n = Inl (ValueError ''The truth value of a DataFrame is ambiguous'')"
| "py_less v n = Inl (TypeError ''not supported between these instances'')"

section \<open>Custom-init sanitizer\<close>

text \<open>
  Lines 58-62, for one scalar parameter. The builtin \<^verbatim>\<open>float\<close> is the parameter
  \<open>to_float\<close>: whatever it raises is caught, and the default is read then.
\<close>

definition sanitize_scalar ::
  "(pyval \<Rightarrow> py_error + real) \<Rightarrow> (string \<rightharpoonup> pyval) \<Rightarrow> (string \<rightharpoonup> pyval) \<Rightarrow>
   string \<Rightarrow> (string \<rightharpoonup> pyval) \<Rightarrow> py_error + (string \<rightharpoonup> pyval)" where
  "sanitize_scalar to_float default_inits custom_inits param sanitized =
     (case to_float (py_get custom_inits param) of
        Inr x \<Rightarrow> Inr (sanitized(param \<mapsto> PyFloat x))
      | Inl e \<Rightarrow> py_bind (py_item default_inits param) (\<lambda>d. Inr (sanitized(param \<mapsto> d))))"

text \<open>Lines 63-67, for one vector parameter; nothing is caught here.\<close>

definition sanitize_vector ::
  "(string \<rightharpoonup> pyval) \<Rightarrow> (string \<rightharpoonup> pyval) \<Rightarrow>
   string \<Rightarrow> (string \<rightharpoonup> pyval) \<Rightarrow> py_error + (string \<rightharpoonup> pyval)" where
  "sanitize_vector default_inits custom_inits param sanitized =
     py_bind (py_item default_inits param) (\<lambda>d.
     py_bind (py_shape d) (\<lambda>default_shape.
     py_bind (py_item custom_inits param) (\<lambda>c.
     py_bind (py_shape c) (\<lambda>custom_shape.
       if default_shape = custom_shape then Inr (sanitized(param \<mapsto> c))
       else Inr (sanitized(param \<mapsto> d))))))"

definition sanitize_custom_inits ::
  "(pyval \<Rightarrow> py_error + real) \<Rightarrow> (string \<rightharpoonup> pyval) \<Rightarrow> (string \<rightharpoonup> pyval) \<Rightarrow>
   py_error + (string \<rightharpoonup> pyval)" where
  "sanitize_custom_inits to_float default_inits custom_inits =
     py_bind (for_each (sanitize_scalar to_float default_inits custom_inits)
                [''k'', ''m'', ''sigma_obs''] Map.empty)
       (for_each (sanitize_vector default_inits custom_inits) [''delta'', ''beta''])"

section \<open>Reshaping\<close>

text \<open>
  \<^verbatim>\<open>a.reshape(sh)\<close> for a shape without \<^verbatim>\<open>-1\<close>: the sizes must agree. With one
  \<^verbatim>\<open>-1\<close> beside a 1 (\<^verbatim>\<open>(-1, 1)\<close> and \<^verbatim>\<open>(1, -1)\<close>) the free axis takes the
  whole size, which always fits. The result is a new array object on the same elements.
\<close>

definition array_size :: "'a ndarray \<Rightarrow> nat" where
  "array_size a = prod_list (shape a)"

definition reshape :: "nat list \<Rightarrow> 'a ndarray \<Rightarrow> py_error + 'a ndarray" where
  "reshape sh a =
     (if prod_list sh = array_size a then Inr (NDArray sh (elems a))
      else Inl (ValueError ''cannot reshape array''))"

definition reshape_column :: "'a ndarray \<Rightarrow> 'a ndarray" where
  "reshape_column a = NDArray [array_size a, 1] (elems a)"

definition reshape_row :: "'a ndarray \<Rightarrow> 'a ndarray" where
  "reshape_row a = NDArray [1, array_size a] (elems a)"

section \<open>Posterior simplifier\<close>

text \<open>
  The simplifier rebinds entries of a dictionary, so objects live in a store: an
  address is a position in the list of objects, a dictionary object binds keys to
  addresses, and a new object is appended. An address beyond the store does not arise
  from Python; reading it is an error of the model.
\<close>

datatype obj = ArrObj "real ndarray" | DictObj "(string \<times> nat) list"

type_synonym store = "obj list"

definition alloc :: "store \<Rightarrow> obj \<Rightarrow> nat \<times> store" where
  "alloc h ob = (length h, h @ [ob])"

definition deref :: "store \<Rightarrow> nat \<Rightarrow> py_error + obj" where
  "deref h a = (if a < length h then Inr (h ! a) else Inl (RuntimeError ''no such object''))"

text \<open>\<^verbatim>\<open>out[par]\<close>, read as an array.\<close>

definition dict_array :: "store \<Rightarrow> nat \<Rightarrow> string \<Rightarrow> py_error + real ndarray" where
  "dict_array h d par =
     py_bind (deref h d) (\<lambda>ob.
       case ob of
         ArrObj a \<Rightarrow> Inl (IndexError ''only integers and slices are valid indices'')
       | DictObj entries \<Rightarrow>
           (case map_of entries par of
              None \<Rightarrow> Inl (KeyError par)
            | Some a \<Rightarrow>
                py_bind (deref h a) (\<lambda>ob'.
                  case ob' of
                    ArrObj arr \<Rightarrow> Inr arr
                  | DictObj es \<Rightarrow> Inl (AttributeError ''shape''))))"

text \<open>\<^verbatim>\<open>out[par] = arr\<close> for a new array object \<open>arr\<close>.\<close>

definition dict_assign :: "store \<Rightarrow> nat \<Rightarrow> string \<Rightarrow> real ndarray \<Rightarrow> store" where
  "dict_assign h d par arr =
     (case alloc h (ArrObj arr) of
        (a, h') \<Rightarrow>
          (case h' ! d of
             DictObj entries \<Rightarrow> h'[d := DictObj (AList.update par a entries)]
           | ArrObj other \<Rightarrow> h'))"

text \<open>
  Lines 47-51, the body of the loop for one key. The shape \<open>s\<close> is read once, before
  the first reshape; \<^verbatim>\<open>s[1]\<close> raises for a shape with fewer than two entries. The
  result is the exception raised, if any, and the store at that moment.
\<close>

definition simplify_entry :: "nat \<Rightarrow> string \<Rightarrow> store \<Rightarrow> py_error option \<times> store" where
  "simplify_entry out par h =
     (case dict_array h out par of
        Inl e \<Rightarrow> (Some e, h)
      | Inr arr \<Rightarrow>
          (let s = shape arr in
           if length s < 2 then (Some (IndexError ''tuple index out of range''), h)
           else
             (case (if s ! 1 = 1
                    then (case reshape [s ! 0] arr of
                            Inl e \<Rightarrow> Inl e
                          | Inr arr' \<Rightarrow> Inr (dict_assign h out par arr'))
                    else Inr h) of
                Inl e \<Rightarrow> (Some e, h)
              | Inr h1 \<Rightarrow>
                  if par \<in> set [''delta'', ''beta''] \<and> length s < 2
                  then (case dict_array h1 out par of
                          Inl e \<Rightarrow> (Some e, h1)
                        | Inr cur \<Rightarrow> (None, dict_assign h1 out par (reshape_column cur)))
                  else (None, h1))))"

fun simplify_loop :: "nat \<Rightarrow> string list \<Rightarrow> store \<Rightarrow> py_error option \<times> store" where
  "simplify_loop out [] h = (None, h)"
| "simplify_loop out (par # pars) h =
     (case simplify_entry out par h of
        (Some e, h') \<Rightarrow> (Some e, h')
      | (None, h') \<Rightarrow> simplify_loop out pars h')"

text \<open>
  \<^verbatim>\<open>simplify_mcmc_results(params)\<close> for the dictionary at address \<open>params\<close>: line 45
  builds the new dictionary \<open>out\<close> with the same bindings, the loop runs over its keys,
  and \<open>out\<close> is returned.
\<close>

definition simplify_mcmc_results :: "store \<Rightarrow> nat \<Rightarrow> (py_error + nat) \<times> store" where
  "simplify_mcmc_results h params =
     (case deref h params of
        Inl e \<Rightarrow> (Inl e, h)
      | Inr (ArrObj a) \<Rightarrow> (Inl (AttributeError ''items''), h)
      | Inr (DictObj entries) \<Rightarrow>
          (case alloc h (DictObj (fold (\<lambda>(k, v). AList.update k v) entries [])) of
             (out, h1) \<Rightarrow>
               (case simplify_loop out (map fst (fold (\<lambda>(k, v). AList.update k v) entries [])) h1 of
                  (Some e, h2) \<Rightarrow> (Inl e, h2)
                | (None, h2) \<Rightarrow> (Inr out, h2))))"

text \<open>The shape of the array that the dictionary at \<open>d\<close> binds to \<open>par\<close>.\<close>

definition bound_shape :: "store \<Rightarrow> nat \<Rightarrow> string \<Rightarrow> py_error + nat list" where
  "bound_shape h d par = py_bind (dict_array h d par) (\<lambda>arr. Inr (shape arr))"

section \<open>The CmdStanPy backend\<close>

text \<open>
  \<^verbatim>\<open>prepare_data\<close> (lines 168-193): the two dictionaries are built entry by entry, in
  the order of the source, so the first missing key or missing method raises.
\<close>

definition prepare_data ::
  "(string \<rightharpoonup> pyval) \<Rightarrow> (string \<rightharpoonup> pyval) \<Rightarrow>
   py_error + ((string \<times> pyval) list \<times> (string \<times> pyval) list)" where
  "prepare_data init dat =
     py_bind (py_item dat ''T'') (\<lambda>T.
     py_bind (py_item dat ''S'') (\<lambda>S.
     py_bind (py_item dat ''K'') (\<lambda>K.
     py_bind (py_item dat ''tau'') (\<lambda>tau.
     py_bind (py_item dat ''trend_indicator'') (\<lambda>trend_indicator.
     py_bind (py_bind (py_item dat ''y'') py_tolist) (\<lambda>y.
     py_bind (py_bind (py_item dat ''t'') py_tolist) (\<lambda>t.
     py_bind (py_bind (py_item dat ''cap'') py_tolist) (\<lambda>cap.
     py_bind (py_bind (py_item dat ''t_change'') py_tolist) (\<lambda>t_change.
     py_bind (py_bind (py_item dat ''s_a'') py_tolist) (\<lambda>s_a.
     py_bind (py_bind (py_item dat ''s_m'') py_tolist) (\<lambda>s_m.
     py_bind (py_bind (py_bind (py_item dat ''X'') py_to_numpy) py_tolist) (\<lambda>X.
     py_bind (py_item dat ''sigmas'') (\<lambda>sigmas.
     py_bind (py_item init ''k'') (\<lambda>k.
     py_bind (py_item init ''m'') (\<lambda>m.
     py_bind (py_bind (py_item init ''delta'') py_tolist) (\<lambda>delta.
     py_bind (py_bind (py_item init ''beta'') py_tolist) (\<lambda>beta.
     py_bind (py_item init ''sigma_obs'') (\<lambda>sigma_obs.
       Inr ([(''k'', k), (''m'', m), (''delta'', delta), (''beta'', beta),
             (''sigma_obs'', sigma_obs)],
            [(''T'', T), (''S'', S), (''K'', K), (''tau'', tau),
             (''trend_indicator'', trend_indicator), (''y'', y), (''t'', t), (''cap'', cap),
             (''t_change'', t_change), (''s_a'', s_a), (''s_m'', s_m), (''X'', X),
             (''sigmas'', sigmas)])))))))))))))))))))"

text \<open>
  Lines 113-115 of \<^verbatim>\<open>fit\<close>, the same as 143-145 of \<^verbatim>\<open>sampling\<close> and 321-323 of
  the Numpyro backend: a custom \<^verbatim>\<open>init\<close> is sanitized against the default init and
  taken out of the keyword arguments, unless \<^verbatim>\<open>inits\<close> is given as well. The
  sanitizer reads the custom init as a dictionary; for any other value its item
  access raises.
\<close>

definition use_custom_init ::
  "(pyval \<Rightarrow> py_error + real) \<Rightarrow> (string \<rightharpoonup> pyval) \<Rightarrow> (string \<rightharpoonup> pyval) \<Rightarrow>
   py_error + ((string \<rightharpoonup> pyval) \<times> (string \<rightharpoonup> pyval))" where
  "use_custom_init to_float stan_init kwargs =
     (if kwargs ''inits'' = None \<and> kwargs ''init'' \<noteq> None then
        (case kwargs ''init'' of
           Some (PyDict custom) \<Rightarrow>
             py_bind (sanitize_custom_inits to_float stan_init (map_of custom))
               (\<lambda>sanitized. Inr (sanitized, kwargs(''init'' := None)))
         | _ \<Rightarrow> Inl (TypeError ''the custom init is not a dictionary''))
      else Inr (stan_init, kwargs))"

text \<open>
  Lines 113-124 of \<^verbatim>\<open>fit\<close>: the arguments of the optimizer. The keyword arguments of
  the caller are written over the four entries that \<^verbatim>\<open>fit\<close> sets.
\<close>

definition fit_args ::
  "(pyval \<Rightarrow> py_error + real) \<Rightarrow> (string \<rightharpoonup> pyval) \<Rightarrow> (string \<rightharpoonup> pyval) \<Rightarrow>
   (string \<rightharpoonup> pyval) \<Rightarrow> py_error + (string \<rightharpoonup> pyval)" where
  "fit_args to_float stan_init stan_data kwargs =
     py_bind (use_custom_init to_float stan_init kwargs) (\<lambda>(stan_init', kwargs').
     py_bind (prepare_data stan_init' stan_data) (\<lambda>(inits_list, data_list).
     py_bind (py_item (map_of data_list) ''T'') (\<lambda>T.
     py_bind (py_less T 100) (\<lambda>small.
       Inr ([''data'' \<mapsto> PyDict data_list,
             ''inits'' \<mapsto> PyDict inits_list,
             ''algorithm'' \<mapsto> PyStr (if small then ''Newton'' else ''LBFGS''),
             ''iter'' \<mapsto> PyInt 10000] ++ kwargs')))))"

text \<open>
  The result object of an optimization, and the backend: the engine's model handle
  (of any type \<open>'m\<close>), the last result, the fallback option, and the warnings that
  the module's logger has recorded. The engine is the parameter \<open>optimize\<close>: called
  on the handle and the arguments it returns a result or raises, and the handle after
  the call.
\<close>

record stan_fit_obj =
  column_names :: "string list"
  optimized_params_np :: "real ndarray"

record 'm backend =
  model :: 'm
  stan_fit :: "stan_fit_obj option"
  newton_fallback :: bool
  warnings :: "string list"

text \<open>Lines 135-140: the result is decoded and every array gets a leading axis of size 1.\<close>

definition fit_params :: "stan_fit_obj \<Rightarrow> py_error + real decoded" where
  "fit_params sf =
     py_bind (stan_to_dict_numpy (column_names sf) (optimized_params_np sf))
       (\<lambda>params. Inr (map (\<lambda>(par, v). (par, reshape_row v)) params))"

text \<open>
  Lines 126-134: the optimizer runs; a \<^verbatim>\<open>RuntimeError\<close> is caught, and raised again
  when the fallback is off or the algorithm was Newton already; otherwise the warning
  is logged and the optimizer runs once more with Newton, outside any handler.
\<close>

definition fit ::
  "('m \<Rightarrow> (string \<rightharpoonup> pyval) \<Rightarrow> (py_error + stan_fit_obj) \<times> 'm) \<Rightarrow>
   (pyval \<Rightarrow> py_error + real) \<Rightarrow> 'm backend \<Rightarrow> (string \<rightharpoonup> pyval) \<Rightarrow>
   (string \<rightharpoonup> pyval) \<Rightarrow> (string \<rightharpoonup> pyval) \<Rightarrow> (py_error + real decoded) \<times> 'm backend" where
  "fit optimize to_float self stan_init stan_data kwargs =
     (case fit_args to_float stan_init stan_data kwargs of
        Inl e \<Rightarrow> (Inl e, self)
      | Inr args \<Rightarrow>
          (case optimize (model self) args of
             (Inr sf, m1) \<Rightarrow> (fit_params sf, self\<lparr>model := m1, stan_fit := Some sf\<rparr>)
           | (Inl (RuntimeError msg), m1) \<Rightarrow>
               if \<not> newton_fallback self \<or> args ''algorithm'' = Some (PyStr ''Newton'')
               then (Inl (RuntimeError msg), self\<lparr>model := m1\<rparr>)
               else
                 (case optimize m1 (args(''algorithm'' \<mapsto> PyStr ''Newton'')) of
                    (Inr sf, m2) \<Rightarrow>
                      (fit_params sf,
                       self\<lparr>model := m2, stan_fit := Some sf,
                            warnings := warnings self @
                              [''Optimization terminated abnormally. Falling back to Newton.'']\<rparr>)
                  | (Inl e2, m2) \<Rightarrow>
                      (Inl e2,
                       self\<lparr>model := m2,
                            warnings := warnings self @
                              [''Optimization terminated abnormally. Falling back to Newton.'']\<rparr>))
           | (Inl e, m1) \<Rightarrow> (Inl e, self\<lparr>model := m1\<rparr>)))"

text \<open>
  Lines 143-158 of \<^verbatim>\<open>sampling\<close>: the arguments of the sampler, for the requested
  number of draws \<open>samples\<close>.
\<close>

definition sampling_args ::
  "(pyval \<Rightarrow> py_error + real) \<Rightarrow> (string \<rightharpoonup> pyval) \<Rightarrow> (string \<rightharpoonup> pyval) \<Rightarrow> int \<Rightarrow>
   (string \<rightharpoonup> pyval) \<Rightarrow> py_error + (string \<rightharpoonup> pyval)" where
  "sampling_args to_float stan_init stan_data samples kwargs =
     py_bind (use_custom_init to_float stan_init kwargs) (\<lambda>(stan_init', kwargs1).
     py_bind (prepare_data stan_init' stan_data) (\<lambda>(inits_list, data_list).
       (let args = [''data'' \<mapsto> PyDict data_list, ''inits'' \<mapsto> PyDict inits_list];
            kwargs2 = (if kwargs1 ''chains'' = None then kwargs1(''chains'' \<mapsto> PyInt 4)
                       else kwargs1);
            iter_half = samples div 2;
            kwargs3 = kwargs2(''iter_sampling'' \<mapsto> PyInt iter_half);
            kwargs4 = (if kwargs3 ''iter_warmup'' = None
                       then kwargs3(''iter_warmup'' \<mapsto> PyInt iter_half)
                       else kwargs3)
        in Inr (args ++ kwargs4))))"

section \<open>The Numpyro backend\<close>

text \<open>
  Lines 321-348 of \<^verbatim>\<open>NumpyroBackend.sampling\<close>: the keyword arguments with which the
  sampler \<^verbatim>\<open>MCMC\<close> is built. The backend's \<^verbatim>\<open>prepare_data\<close> reads declarations of
  the module \<^verbatim>\<open>numpyro_model\<close> and is the parameter \<open>prepare\<close>; the replication of
  the init over the chains and the construction of the kernel are the engine's.
\<close>

definition numpyro_run_params :: "(string \<rightharpoonup> pyval) \<Rightarrow> (string \<rightharpoonup> pyval)" where
  "numpyro_run_params kwargs =
     [''chain_method'' \<mapsto> PyStr ''sequential'',
      ''progress_bar'' \<mapsto> PyBool False,
      ''num_chains'' \<mapsto> PyInt 4,
      ''seed'' \<mapsto> PyInt 0,
      ''max_tree_depth'' \<mapsto> PyInt 10] ++ kwargs"

definition numpyro_mcmc_args ::
  "(pyval \<Rightarrow> py_error + real) \<Rightarrow>
   ((string \<rightharpoonup> pyval) \<Rightarrow> (string \<rightharpoonup> pyval) \<Rightarrow> py_error + ('i \<times> 'd)) \<Rightarrow>
   (string \<rightharpoonup> pyval) \<Rightarrow> (string \<rightharpoonup> pyval) \<Rightarrow> int \<Rightarrow>
   (string \<rightharpoonup> pyval) \<Rightarrow> py_error + (string \<rightharpoonup> pyval)" where
  "numpyro_mcmc_args to_float prepare stan_init stan_data samples kwargs =
     py_bind (use_custom_init to_float stan_init kwargs) (\<lambda>(stan_init', kwargs').
     py_bind (prepare stan_init' stan_data) (\<lambda>(init, dat).
       (let run_params = numpyro_run_params kwargs'
        in py_bind (py_item run_params ''num_chains'') (\<lambda>num_chains.
           py_bind (py_item run_params ''chain_method'') (\<lambda>chain_method.
           py_bind (py_item run_params ''progress_bar'') (\<lambda>progress_bar.
             Inr [''num_warmup'' \<mapsto> PyInt (samples div 2),
                  ''num_samples'' \<mapsto> PyInt (samples div 2),
                  ''thinning'' \<mapsto> PyInt 1,
                  ''num_chains'' \<mapsto> num_chains,
                  ''chain_method'' \<mapsto> chain_method,
                  ''progress_bar'' \<mapsto> progress_bar]))))))"

section \<open>Backend registry\<close>

datatype backend_class = CmdStanPyBackend | NumpyroBackend

text \<open>The members of \<^verbatim>\<open>StanBackendEnum\<close>, by name.\<close>

definition StanBackendEnum :: "(string \<times> backend_class) list" where
  "StanBackendEnum = [(''CMDSTANPY'', CmdStanPyBackend), (''NUMPYRO'', NumpyroBackend)]"

text \<open>\<^verbatim>\<open>StanBackendEnum[name].value\<close>: a name that is no member raises \<^verbatim>\<open>KeyError\<close>.\<close>

definition enum_member :: "string \<Rightarrow> py_error + backend_class" where
  "enum_member name =
     (case map_of StanBackendEnum name of None \<Rightarrow> Inl (KeyError name) | Some c \<Rightarrow> Inr c)"

definition get_backend_class :: "string \<Rightarrow> py_error + backend_class" where
  "get_backend_class name =
     (case enum_member name of
        Inr c \<Rightarrow> Inr c
      | Inl (KeyError k) \<Rightarrow> Inl (ValueError (''Unknown stan backend: '' @ name))
      | Inl e \<Rightarrow> Inl e)"

text \<open>\<^verbatim>\<open>get_type\<close> of each backend class: the name of its member.\<close>

fun get_type :: "backend_class \<Rightarrow> string" where
  "get_type CmdStanPyBackend = ''CMDSTANPY''"
| "get_type NumpyroBackend = ''NUMPYRO''"

section \<open>Example inputs\<close>

text \<open>
  A default init and model data with two observations and a given observation count
  \<open>T\<close>, a coercion that accepts numbers only, a backend with the fallback on, and an
  engine that keeps the requested algorithms in its handle and fails unless Newton is
  requested.
\<close>

definition example_init :: "string \<rightharpoonup> pyval" where
  "example_init =
     [''k'' \<mapsto> PyFloat 0, ''m'' \<mapsto> PyFloat 0, ''sigma_obs'' \<mapsto> PyFloat 1,
      ''delta'' \<mapsto> PyArray (NDArray [2] [0, 0]), ''beta'' \<mapsto> PyArray (NDArray [1] [0])]"

definition example_data :: "int \<Rightarrow> (string \<rightharpoonup> pyval)" where
  "example_data T =
     [''T'' \<mapsto> PyInt T, ''S'' \<mapsto> PyInt 2, ''K'' \<mapsto> PyInt 1, ''tau'' \<mapsto> PyFloat 1,
      ''trend_indicator'' \<mapsto> PyInt 0,
      ''y'' \<mapsto> PyArray (NDArray [2] [1, 2]), ''t'' \<mapsto> PyArray (NDArray [2] [0, 1]),
      ''cap'' \<mapsto> PyArray (NDArray [2] [0, 0]), ''t_change'' \<mapsto> PyArray (NDArray [2] [0, 1]),
      ''s_a'' \<mapsto> PyArray (NDArray [1] [1]), ''s_m'' \<mapsto> PyArray (NDArray [1] [0]),
      ''X'' \<mapsto> PyFrame (NDArray [2, 1] [0, 0]), ''sigmas'' \<mapsto> PyList [PyFloat 10]]"

fun float_of_number :: "pyval \<Rightarrow> py_error + real" where
  "float_of_number (PyFloat x) = Inr x"
| "float_of_number (PyInt i) = Inr (of_int i)"
| "float_of_number v = Inl (TypeError ''float() argument must be a string or a real number'')"

definition example_fit :: stan_fit_obj where
  "example_fit =
     \<lparr>column_names = [''lp__'', ''k'', ''delta[1]'', ''delta[2]''],
      optimized_params_np = NDArray [4] [5, 1, 2, 3]\<rparr>"

definition example_backend :: "bool \<Rightarrow> pyval option list backend" where
  "example_backend fallback =
     \<lparr>model = [], stan_fit = None, newton_fallback = fallback, warnings = []\<rparr>"

definition newton_only ::
  "pyval option list \<Rightarrow> (string \<rightharpoonup> pyval) \<Rightarrow> (py_error + stan_fit_obj) \<times> pyval option list" where
  "newton_only calls args =
     (if args ''algorithm'' = Some (PyStr ''Newton'') then Inr example_fit
      else Inl (RuntimeError ''Error during optimization''),
      calls @ [args ''algorithm''])"

section \<open>Verification of the column-name decoder\<close>

lemma split_on_nonempty: "split_on sep s \<noteq> []"
  by (induction s) (auto split: list.splits)

lemma hd_split_on: "hd (split_on sep s) = takeWhile (\<lambda>c. c \<noteq> sep) s"
  by (induction s) (auto split: list.splits simp: split_on_nonempty)

lemma update_fresh: "k \<notin> set (map fst al) \<Longrightarrow> AList.update k v al = al @ [(k, v)]"
  by (induction al) auto

lemma map_fst_runs_from: "map fst (runs_from p s e bs) = remdups_adj (p # bs)"
  by (induction bs arbitrary: p s e) auto

lemma scan_invariant:
  assumes ok: "\<And>s e. \<exists>v. (if td then slice_axis1 dat s e else slice_axis0 dat s e) = Inr v"
  shows "distinct (map fst out) \<Longrightarrow> scan_finish td dat (scan_columns td dat (out, Some p, s, e) cs) =
     (if distinct (map fst out @ map (\<lambda>t. Some (fst t)) (runs_from p s e (map base_name cs)))
      then Inr (out @ map (\<lambda>(b, s', e'). (Some b, projr (if td then slice_axis1 dat s' e' else slice_axis0 dat s' e')))
                       (runs_from p s e (map base_name cs)))
      else Inl (RuntimeError ''Found repeated column name''))"
proof (induction cs arbitrary: out p s e)
  case Nil
  obtain v where v: "(if td then slice_axis1 dat s e else slice_axis0 dat s e) = Inr v"
    using ok by blast
  show ?case
    using v Nil by (auto simp: scan_finish_def close_run_def update_fresh)
next
  case (Cons c cs)
  obtain v where v: "(if td then slice_axis1 dat s e else slice_axis0 dat s e) = Inr v"
    using ok by blast
  show ?case
  proof (cases "base_name c = p")
    case True
    then show ?thesis using Cons.IH [of out p s "Suc e"] Cons.prems by (simp add: Let_def)
  next
    case False
    show ?thesis
    proof (cases "Some p \<in> set (map fst out)")
      case True
      then show ?thesis using False
        by (auto simp: Let_def close_run_def scan_finish_def)
    next
      case notin: False
      have "scan_finish td dat (scan_columns td dat (out, Some p, s, e) (c # cs)) =
            scan_finish td dat (scan_columns td dat (out @ [(Some p, v)], Some (base_name c), e, Suc e) cs)"
        using False notin v by (auto simp: Let_def close_run_def update_fresh)
      also have "\<dots> = (if distinct (map fst (out @ [(Some p, v)]) @ map (\<lambda>t. Some (fst t)) (runs_from (base_name c) e (Suc e) (map base_name cs)))
      then Inr ((out @ [(Some p, v)]) @ map (\<lambda>(b, s', e'). (Some b, projr (if td then slice_axis1 dat s' e' else slice_axis0 dat s' e')))
                       (runs_from (base_name c) e (Suc e) (map base_name cs)))
      else Inl (RuntimeError ''Found repeated column name''))"
        using notin Cons.prems by (intro Cons.IH) auto
      finally show ?thesis using False notin v
        by (auto simp: image_iff)
    qed
  qed
qed

lemma distinct_remdups_adj_Cons:
  "distinct (remdups_adj (x # xs)) \<longleftrightarrow>
     x \<notin> set (dropWhile (\<lambda>y. y = x) xs) \<and> distinct (remdups_adj xs)"
proof (induction xs)
  case Nil
  then show ?case by simp
next
  case (Cons y ys)
  then show ?case by (cases "y = x") auto
qed

lemma in_dropWhile_iff:
  "x \<in> set (dropWhile (\<lambda>y. y = x) xs) \<longleftrightarrow> (\<exists>k<length xs. \<exists>j<k. xs ! j \<noteq> x \<and> xs ! k = x)"
proof (induction xs)
  case Nil
  then show ?case by simp
next
  case (Cons y ys)
  show ?case
  proof (cases "y = x")
    case True
    have "(\<exists>k<length (y # ys). \<exists>j<k. (y # ys) ! j \<noteq> x \<and> (y # ys) ! k = x) \<longleftrightarrow>
          (\<exists>k<length ys. \<exists>j<k. ys ! j \<noteq> x \<and> ys ! k = x)" (is "?L \<longleftrightarrow> ?R")
    proof
      assume ?L
      then obtain k j where kj: "k < length (y # ys)" "j < k" "(y # ys) ! j \<noteq> x" "(y # ys) ! k = x"
        by blast
      with True obtain j' where j': "j = Suc j'" by (cases j) auto
      with kj obtain k' where k': "k = Suc k'" by (cases k) auto
      from kj j' k' have "k' < length ys" "j' < k'" "ys ! j' \<noteq> x" "ys ! k' = x" by auto
      then show ?R by blast
    next
      assume ?R
      then obtain k j where "k < length ys" "j < k" "ys ! j \<noteq> x" "ys ! k = x" by blast
      then have "Suc k < length (y # ys)" "Suc j < Suc k" "(y # ys) ! Suc j \<noteq> x" "(y # ys) ! Suc k = x"
        by auto
      then show ?L by blast
    qed
    with True Cons show ?thesis by simp
  next
    case False
    have "x \<in> set ys \<longleftrightarrow> (\<exists>k<length (y # ys). \<exists>j<k. (y # ys) ! j \<noteq> x \<and> (y # ys) ! k = x)"
      (is "?L \<longleftrightarrow> ?R")
    proof
      assume ?L
      then obtain k where "k < length ys" "ys ! k = x" by (auto simp: in_set_conv_nth)
      with False have "Suc k < length (y # ys)" "0 < Suc k" "(y # ys) ! 0 \<noteq> x" "(y # ys) ! Suc k = x"
        by auto
      then show ?R by blast
    next
      assume ?R
      then obtain k j where kj: "k < length (y # ys)" "j < k" "(y # ys) ! k = x" by blast
      then obtain k' where "k = Suc k'" by (cases k) auto
      with kj show ?L by auto
    qed
    with False show ?thesis by simp
  qed
qed

lemma reappears_Cons:
  "reappears (x # xs) \<longleftrightarrow>
     (\<exists>k<length xs. \<exists>j<k. xs ! j \<noteq> x \<and> xs ! k = x) \<or> reappears xs" (is "?L \<longleftrightarrow> ?A \<or> ?B")
proof
  assume ?L
  then obtain k j i where h: "k < length (x # xs)" "j < k" "i < j"
      "(x # xs) ! i = (x # xs) ! k" "(x # xs) ! j \<noteq> (x # xs) ! i"
    unfolding reappears_def by blast
  obtain j' where j': "j = Suc j'" using h(3) by (cases j) auto
  obtain k' where k': "k = Suc k'" using h(2) by (cases k) auto
  show "?A \<or> ?B"
  proof (cases i)
    case 0
    with h j' k' have "k' < length xs" "j' < k'" "xs ! j' \<noteq> x" "xs ! k' = x" by auto
    then show ?thesis by blast
  next
    case (Suc i')
    with h j' k' have "k' < length xs" "j' < k'" "i' < j'" "xs ! i' = xs ! k'" "xs ! j' \<noteq> xs ! i'"
      by auto
    then have ?B unfolding reappears_def by blast
    then show ?thesis ..
  qed
next
  assume "?A \<or> ?B"
  then show ?L
  proof
    assume ?A
    then obtain k j where "k < length xs" "j < k" "xs ! j \<noteq> x" "xs ! k = x" by blast
    then have "Suc k < length (x # xs)" "Suc j < Suc k" "0 < Suc j"
       "(x # xs) ! 0 = (x # xs) ! Suc k" "(x # xs) ! Suc j \<noteq> (x # xs) ! 0" by auto
    then show ?L unfolding reappears_def by blast
  next
    assume ?B
    then obtain k j i where "k < length xs" "j < k" "i < j" "xs ! i = xs ! k" "xs ! j \<noteq> xs ! i"
      unfolding reappears_def by blast
    then have "Suc k < length (x # xs)" "Suc j < Suc k" "Suc i < Suc j"
       "(x # xs) ! Suc i = (x # xs) ! Suc k" "(x # xs) ! Suc j \<noteq> (x # xs) ! Suc i" by auto
    then show ?L unfolding reappears_def by blast
  qed
qed

lemma reappears_iff: "reappears xs \<longleftrightarrow> \<not> distinct (remdups_adj xs)"
proof (induction xs)
  case Nil
  then show ?case by (simp add: reappears_def)
next
  case (Cons x xs)
  then show ?case
    by (simp only: reappears_Cons distinct_remdups_adj_Cons in_dropWhile_iff) blast
qed

lemma filter_remdups_adj:
  assumes "x \<notin> set (dropWhile (\<lambda>y. y = x) xs)"
  shows "filter (\<lambda>y. y \<noteq> x) (remdups_adj xs) = remdups_adj (dropWhile (\<lambda>y. y = x) xs)"
proof (cases xs)
  case Nil
  then show ?thesis by simp
next
  case (Cons y ys)
  show ?thesis
  proof (cases "y = x")
    case True
    have "filter (\<lambda>y. y \<noteq> x) (remdups_adj (dropWhile (\<lambda>y. y = x) ys)) = remdups_adj (dropWhile (\<lambda>y. y = x) ys)"
      using assms Cons True by (intro filter_True) auto
    with True Cons show ?thesis by (simp add: remdups_adj_Cons')
  next
    case False
    with assms Cons have "x \<notin> set xs" by simp
    then have "filter (\<lambda>y. y \<noteq> x) (remdups_adj xs) = remdups_adj xs"
      by (intro filter_True) auto
    with False Cons show ?thesis by simp
  qed
qed

lemma first_occurrences_contiguous:
  "distinct (remdups_adj xs) \<Longrightarrow> first_occurrences xs = remdups_adj xs"
proof (induction xs)
  case Nil
  then show ?case by simp
next
  case (Cons x xs)
  then have a: "x \<notin> set (dropWhile (\<lambda>y. y = x) xs)" and d: "distinct (remdups_adj xs)"
    by (simp_all add: distinct_remdups_adj_Cons)
  from Cons.IH d have "first_occurrences xs = remdups_adj xs" by simp
  then show ?case using filter_remdups_adj [OF a]
    by (simp add: remdups_adj_Cons')
qed

lemma runs_from_sound:
  assumes "(b, s', e') \<in> set (runs_from p s e bs)"
    and "length pre = e" and "s < e"
    and "\<forall>i. s \<le> i \<and> i < e \<longrightarrow> pre ! i = p"
  shows "s \<le> s' \<and> s' < e' \<and> e' \<le> length (pre @ bs) \<and> (\<forall>i. s' \<le> i \<and> i < e' \<longrightarrow> (pre @ bs) ! i = b)"
  using assms
proof (induction bs arbitrary: pre p s e)
  case Nil
  then show ?case by auto
next
  case (Cons c cs)
  have len: "length (pre @ [c]) = Suc e" using Cons.prems by simp
  show ?case
  proof (cases "c = p")
    case True
    have "\<forall>i. s \<le> i \<and> i < Suc e \<longrightarrow> (pre @ [c]) ! i = p"
      using Cons.prems True by (auto simp: nth_append less_Suc_eq)
    with Cons.IH [of p s "Suc e" "pre @ [c]"] Cons.prems True len
    show ?thesis by auto
  next
    case False
    show ?thesis
    proof (cases "(b, s', e') = (p, s, e)")
      case True
      then show ?thesis using Cons.prems by (auto simp: nth_append)
    next
      case neq: False
      with Cons.prems False have mem: "(b, s', e') \<in> set (runs_from c e (Suc e) cs)" by auto
      have "\<forall>i. e \<le> i \<and> i < Suc e \<longrightarrow> (pre @ [c]) ! i = c"
        using Cons.prems by (auto simp: nth_append less_Suc_eq)
      with Cons.IH [of c e "Suc e" "pre @ [c]"] mem len Cons.prems
      show ?thesis by auto
    qed
  qed
qed

lemma runs_from_cover:
  assumes "s \<le> i" and "i < e + length bs"
  shows "\<exists>b s' e'. (b, s', e') \<in> set (runs_from p s e bs) \<and> s' \<le> i \<and> i < e'"
  using assms
proof (induction bs arbitrary: p s e)
  case Nil
  then show ?case by auto
next
  case (Cons c cs)
  show ?case
  proof (cases "c = p")
    case True
    with Cons.IH [of s "Suc e" p] Cons.prems show ?thesis by auto
  next
    case False
    show ?thesis
    proof (cases "i < e")
      case True
      with False Cons.prems show ?thesis by auto
    next
      case ge: False
      with Cons.IH [of e "Suc e" c] Cons.prems
      obtain b s' e' where "(b, s', e') \<in> set (runs_from c e (Suc e) cs)" "s' \<le> i" "i < e'"
        by auto
      with False show ?thesis by auto
    qed
  qed
qed

lemma runs_positions:
  assumes mem: "(b, s', e') \<in> set (runs_from c 0 1 cs)"
    and dist: "distinct (remdups_adj (c # cs))"
  shows "e' \<le> length (c # cs)" and "s' < e'"
    and "\<forall>i<length (c # cs). (c # cs) ! i = b \<longleftrightarrow> s' \<le> i \<and> i < e'"
proof -
  have pre: "length [c] = 1" "(0::nat) < 1" "\<forall>i. 0 \<le> i \<and> i < 1 \<longrightarrow> [c] ! i = c" by auto
  from runs_from_sound [OF mem pre]
  have snd: "s' < e'" "e' \<le> length (c # cs)" "\<forall>i. s' \<le> i \<and> i < e' \<longrightarrow> (c # cs) ! i = b"
    by auto
  show "e' \<le> length (c # cs)" "s' < e'" using snd by auto
  have dmap: "distinct (map fst (runs_from c 0 1 cs))"
    using dist by (simp only: map_fst_runs_from)
  show "\<forall>i<length (c # cs). (c # cs) ! i = b \<longleftrightarrow> s' \<le> i \<and> i < e'"
  proof (intro allI impI iffI)
    fix i assume i: "i < length (c # cs)" and eq: "(c # cs) ! i = b"
    from runs_from_cover [of 0 i 1 cs c] i
    obtain b2 s2 e2 where m2: "(b2, s2, e2) \<in> set (runs_from c 0 1 cs)" and r: "s2 \<le> i" "i < e2"
      by auto
    from runs_from_sound [OF m2 pre] r have "(c # cs) ! i = b2" by auto
    with eq have "b2 = b" by simp
    with m2 mem dmap have "(s2, e2) = (s', e')"
      by (metis eq_key_imp_eq_value)
    with r show "s' \<le> i \<and> i < e'" by simp
  next
    fix i assume "i < length (c # cs)" "s' \<le> i \<and> i < e'"
    with snd show "(c # cs) ! i = b" by blast
  qed
qed

lemma filter_interval: "e \<le> n \<Longrightarrow> filter (\<lambda>i. s \<le> i \<and> i < e) [0..<n] = [s..<e]"
proof (induction n arbitrary: e)
  case 0
  then show ?case by simp
next
  case (Suc n)
  show ?case
  proof (cases "e = Suc n")
    case True
    have "filter (\<lambda>i. s \<le> i \<and> i < Suc n) [0..<n] = filter (\<lambda>i. s \<le> i \<and> i < n) [0..<n]"
      by (intro filter_cong) auto
    also have "\<dots> = [s..<n]" using Suc.IH [of n] by simp
    finally show ?thesis using True by (auto simp: upt_Suc)
  next
    case False
    with Suc.prems have "e \<le> n" by simp
    with Suc.IH show ?thesis by simp
  qed
qed

lemma filter_positions:
  assumes "\<forall>i<length xs. P (xs ! i) \<longleftrightarrow> s \<le> i \<and> i < e" and "e \<le> length xs"
  shows "filter (\<lambda>i. P (xs ! i)) [0..<length xs] = [s..<e]"
proof -
  have "filter (\<lambda>i. P (xs ! i)) [0..<length xs] = filter (\<lambda>i. s \<le> i \<and> i < e) [0..<length xs]"
    using assms by (intro filter_cong) auto
  then show ?thesis using assms(2) by (simp add: filter_interval)
qed

lemma count_positions:
  assumes "\<forall>i<length xs. xs ! i = b \<longleftrightarrow> s \<le> i \<and> i < e" and "e \<le> length xs" and "s \<le> e"
  shows "count_list xs b = e - s"
proof -
  have "count_list xs b = length (filter ((=) b) xs)"
    by (simp add: count_list_eq_length_filter)
  also have "\<dots> = card {i. i < length xs \<and> b = xs ! i}"
    by (simp add: length_filter_conv_card)
  also have "{i. i < length xs \<and> b = xs ! i} = {s..<e}"
    using assms by (auto simp: eq_commute [of b])
  finally show ?thesis by simp
qed

lemma map_nth_interval:
  assumes "off + e \<le> length xs"
  shows "map (\<lambda>j. xs ! (off + j)) [s..<e] = take (e - s) (drop (off + s) xs)"
  using assms by (intro nth_equalityI) (auto simp: add.assoc)

lemma base_name_eq:
  "base_name c = (if CHR ''.'' \<in> set c then takeWhile (\<lambda>x. x \<noteq> CHR ''.'') c
                  else takeWhile (\<lambda>x. x \<noteq> CHR ''['') c)"
  by (simp add: base_name_def hd_split_on)

lemma base_name_prefix: "well_formed_name c \<Longrightarrow> base_name c = name_prefix c"
  unfolding base_name_eq name_prefix_def well_formed_name_def
  by (auto intro!: takeWhile_cong)

lemma slice_ok:
  assumes "shape dat \<noteq> []"
  shows "\<exists>v. (if length (shape dat) > 1 then slice_axis1 dat s e else slice_axis0 dat s e) = Inr v"
proof (cases dat)
  case (NDArray sh xs)
  show ?thesis
  proof (cases sh)
    case Nil
    with assms NDArray show ?thesis by simp
  next
    case (Cons n rest)
    with NDArray show ?thesis by (cases rest) (simp_all add: Let_def)
  qed
qed

lemma distinct_map_Some: "distinct (map (\<lambda>t. Some (f t)) xs) = distinct (map f xs)"
  by (induction xs) auto

lemma stan_to_dict_numpy_Cons:
  assumes "shape dat \<noteq> []"
  shows "stan_to_dict_numpy (c # cs) dat =
     (if distinct (remdups_adj (map base_name (c # cs)))
      then Inr (map (\<lambda>(b, s, e). (Some b,
                  projr (if length (shape dat) > 1 then slice_axis1 dat s e else slice_axis0 dat s e)))
                (runs_from (base_name c) 0 1 (map base_name cs)))
      else Inl (RuntimeError ''Found repeated column name''))"
proof -
  have "stan_to_dict_numpy (c # cs) dat =
        scan_finish (length (shape dat) > 1) dat
          (scan_columns (length (shape dat) > 1) dat ([], Some (base_name c), 0, 1) cs)"
    by (simp add: stan_to_dict_numpy_def Let_def)
  also note scan_invariant [where out = "[]", OF slice_ok [OF assms]]
  finally have *: "stan_to_dict_numpy (c # cs) dat =
     (if distinct (map (\<lambda>t. Some (fst t)) (runs_from (base_name c) 0 1 (map base_name cs)))
      then Inr (map (\<lambda>(b, s, e). (Some b,
                  projr (if length (shape dat) > 1 then slice_axis1 dat s e else slice_axis0 dat s e)))
                (runs_from (base_name c) 0 1 (map base_name cs)))
      else Inl (RuntimeError ''Found repeated column name''))"
    by simp
  have "distinct (map (\<lambda>t. Some (fst t)) (runs_from (base_name c) 0 1 (map base_name cs))) =
        distinct (remdups_adj (map base_name (c # cs)))"
    by (simp only: distinct_map_Some map_fst_runs_from list.map)
  with * show ?thesis by (simp only:)
qed

lemma slice_axis0_interval:
  assumes "e \<le> length xs"
  shows "slice_axis0 (NDArray [length xs] xs) s e = Inr (take_entries xs [s..<e])"
  using assms map_nth_interval [of 0 e xs s]
  by (simp add: Let_def take_entries_def min_def)

lemma slice_axis1_interval:
  assumes "e \<le> n" and "length xs = r * n"
  shows "slice_axis1 (NDArray [r, n] xs) s e = Inr (take_columns r n xs [s..<e])"
proof -
  have "take (e - s) (drop (i * n + s) xs) = map (\<lambda>j. xs ! (i * n + j)) [s..<e]" if "i < r" for i
  proof -
    have "Suc i * n \<le> r * n" using that by (intro mult_le_mono1) simp
    then have "i * n + e \<le> length xs" using assms by simp
    from map_nth_interval [OF this] show ?thesis by simp
  qed
  then have eq: "concat (map (\<lambda>i. take (e - s) (drop (i * n + s) xs)) [0..<r]) =
             concat (map (\<lambda>i. map (\<lambda>j. xs ! (i * n + j)) [s..<e]) [0..<r])"
    by (intro arg_cong [where f = concat] map_cong) auto
  have len: "min e n - min s n = e - s" using assms by (simp add: min_def)
  have unf: "slice_axis1 (NDArray [r, n] xs) s e =
     Inr (NDArray [r, e - s] (concat (map (\<lambda>i. take (e - s) (drop (i * n + min s n) xs)) [0..<r])))"
    by (simp add: Let_def len)
  show ?thesis
  proof (cases "s \<le> e")
    case True
    with assms have "min s n = s" by simp
    then show ?thesis using eq unf by (simp add: take_columns_def)
  next
    case False
    then have "e - s = 0" "[s..<e] = []" by simp_all
    then show ?thesis using unf by (simp add: take_columns_def)
  qed
qed


lemma columns_of_run:
  assumes wf: "\<forall>c\<in>set (c0 # cs). well_formed_name c"
    and dist: "distinct (remdups_adj (map base_name (c0 # cs)))"
    and mem: "(b, s, e) \<in> set (runs_from (base_name c0) 0 1 (map base_name cs))"
  shows "columns_of (c0 # cs) b = [s..<e]"
    and "count_list (map name_prefix (c0 # cs)) b = e - s"
    and "e \<le> length (c0 # cs)" and "s < e"
proof -
  let ?bs = "map base_name (c0 # cs)"
  have mem': "(b, s, e) \<in> set (runs_from (base_name c0) 0 1 (map base_name cs))"
    and dist': "distinct (remdups_adj (base_name c0 # map base_name cs))"
    using mem dist by simp_all
  note pos = runs_positions [OF mem' dist']
  have pre: "map name_prefix (c0 # cs) = ?bs"
    using wf by (intro map_cong) (auto simp: base_name_prefix)
  from pos show le: "e \<le> length (c0 # cs)" and lt: "s < e" by simp_all
  have iff: "\<forall>i<length ?bs. ?bs ! i = b \<longleftrightarrow> s \<le> i \<and> i < e"
    using pos(3) by simp
  have "columns_of (c0 # cs) b = filter (\<lambda>i. ?bs ! i = b) [0..<length ?bs]"
    unfolding columns_of_def pre [symmetric]
    by (intro filter_cong) (auto simp del: map_eq_conv list.map)
  also have "\<dots> = [s..<e]"
    using iff le by (intro filter_positions) simp_all
  finally show "columns_of (c0 # cs) b = [s..<e]" .
  show "count_list (map name_prefix (c0 # cs)) b = e - s"
    unfolding pre using iff le lt by (intro count_positions) simp_all
qed

text \<open>
  Claim C1, as amended. For every non-empty sequence of well-formed column names in
  which no base name reappears after a different one, and every well-shaped buffer of
  shape \<open>[n]\<close> or \<open>[r, n]\<close> with \<open>n\<close> the number of column names, the decoder
  returns the mapping whose keys, in order, are the distinct base names at their first
  occurrence, each bound to the buffer's entries at exactly the columns of that base
  name. These columns are one interval of positions, as long as the number of columns
  with that base name, and that number is the size of the value along the sliced axis
  (axis 1 of a two-dimensional buffer, axis 0 of a one-dimensional one).
\<close>

theorem stan_to_dict_numpy_contiguous:
  assumes nonempty: "cnames \<noteq> []"
    and wf: "\<forall>c\<in>set cnames. well_formed_name c"
    and contiguous: "\<not> reappears (map name_prefix cnames)"
    and ws: "well_shaped dat"
    and sh: "shape dat = [length cnames] \<or> shape dat = [r, length cnames]"
  shows "stan_to_dict_numpy cnames dat =
           Inr (map (\<lambda>b. (Some b, select_columns dat (columns_of cnames b)))
                  (first_occurrences (map name_prefix cnames)))
       \<and> (\<forall>b\<in>set (map name_prefix cnames).
            (\<exists>s. columns_of cnames b = [s..<s + count_list (map name_prefix cnames) b])
          \<and> shape (select_columns dat (columns_of cnames b)) =
              (if length (shape dat) > 1 then [r, count_list (map name_prefix cnames) b]
               else [count_list (map name_prefix cnames) b]))"
proof -
  obtain c0 cs where names: "cnames = c0 # cs"
    using nonempty by (cases cnames) auto
  let ?R = "runs_from (base_name c0) 0 1 (map base_name cs)"
  let ?g = "\<lambda>b. (Some b, select_columns dat (columns_of cnames b))"
  have pre: "map name_prefix cnames = map base_name cnames"
    using wf by (intro map_cong) (auto simp: base_name_prefix)
  have dist0: "distinct (remdups_adj (map base_name cnames))"
    using contiguous unfolding pre reappears_iff by simp
  then have dist: "distinct (remdups_adj (map base_name (c0 # cs)))"
    unfolding names .
  have wf': "\<forall>c\<in>set (c0 # cs). well_formed_name c" using wf names by simp
  have nonnil: "shape dat \<noteq> []" using sh by auto
  obtain sh0 xs where dat: "dat = NDArray sh0 xs" by (cases dat)
  have slice: "projr (if length (shape dat) > 1 then slice_axis1 dat s e else slice_axis0 dat s e) =
               select_columns dat [s..<e]" if "e \<le> length cnames" for s e
    using sh
  proof
    assume "shape dat = [length cnames]"
    with ws dat have "dat = NDArray [length xs] xs" "length xs = length cnames"
      by (simp_all add: well_shaped_def)
    with that slice_axis0_interval [of e xs s] show ?thesis
      by (simp add: select_columns_def)
  next
    assume "shape dat = [r, length cnames]"
    with ws dat have "dat = NDArray [r, length cnames] xs" "length xs = r * length cnames"
      by (simp_all add: well_shaped_def)
    with that slice_axis1_interval [of e "length cnames" xs r s] show ?thesis
      by (simp add: select_columns_def)
  qed
  have entry: "(case x of (b, s, e) \<Rightarrow> (Some b,
                  projr (if length (shape dat) > 1 then slice_axis1 dat s e else slice_axis0 dat s e))) =
               ?g (fst x)" if "x \<in> set ?R" for x
  proof -
    obtain b s e where x: "x = (b, s, e)" by (cases x)
    from that x have mem: "(b, s, e) \<in> set ?R" by simp
    from columns_of_run [OF wf' dist mem] names
    have "columns_of cnames b = [s..<e]" "e \<le> length cnames" by simp_all
    with slice [of e s] x show ?thesis by simp
  qed
  have "stan_to_dict_numpy cnames dat =
        Inr (map (\<lambda>(b, s, e). (Some b,
                  projr (if length (shape dat) > 1 then slice_axis1 dat s e else slice_axis0 dat s e))) ?R)"
    unfolding names using stan_to_dict_numpy_Cons [OF nonnil, of c0 cs] dist by (simp only: if_True)
  also have "map (\<lambda>(b, s, e). (Some b,
                  projr (if length (shape dat) > 1 then slice_axis1 dat s e else slice_axis0 dat s e))) ?R =
             map (\<lambda>x. ?g (fst x)) ?R"
    using entry by (intro map_cong) auto
  also have "\<dots> = map ?g (map fst ?R)" by (simp add: o_def)
  also have "map fst ?R = first_occurrences (map name_prefix cnames)"
  proof -
    have "first_occurrences (map name_prefix cnames) =
          first_occurrences (map base_name cnames)"
      by (simp only: pre)
    also have "\<dots> = remdups_adj (map base_name cnames)"
      using dist0 by (rule first_occurrences_contiguous)
    finally show ?thesis by (simp only: map_fst_runs_from list.map names)
  qed
  finally have main: "stan_to_dict_numpy cnames dat =
           Inr (map ?g (first_occurrences (map name_prefix cnames)))" .
  have sizes: "(\<exists>s. columns_of cnames b = [s..<s + count_list (map name_prefix cnames) b])
          \<and> shape (select_columns dat (columns_of cnames b)) =
              (if length (shape dat) > 1 then [r, count_list (map name_prefix cnames) b]
               else [count_list (map name_prefix cnames) b])"
    if "b \<in> set (map name_prefix cnames)" for b
  proof -
    from that have "b \<in> set (map base_name cnames)"
      by (simp only: pre)
    then have "b \<in> set (remdups_adj (map base_name (c0 # cs)))"
      by (simp only: names remdups_adj_set)
    then have "b \<in> set (map fst ?R)"
      by (simp only: map_fst_runs_from list.map)
    then obtain s e where mem: "(b, s, e) \<in> set ?R" by auto
    from columns_of_run [OF wf' dist mem] names
    have cols: "columns_of cnames b = [s..<e]"
      and cnt: "count_list (map name_prefix cnames) b = e - s"
      and lt: "s < e" by simp_all
    from cnt lt have e: "e = s + count_list (map name_prefix cnames) b" by simp
    have "columns_of cnames b = [s..<s + count_list (map name_prefix cnames) b]"
      using cols e by simp
    moreover have "shape (select_columns dat (columns_of cnames b)) =
              (if length (shape dat) > 1 then [r, count_list (map name_prefix cnames) b]
               else [count_list (map name_prefix cnames) b])"
      using sh cols cnt by (auto simp: select_columns_def take_columns_def take_entries_def)
    ultimately show ?thesis by blast
  qed
  from main sizes show ?thesis by blast
qed

text \<open>The theorem at a two-row buffer with four columns.\<close>

theorem stan_to_dict_numpy_contiguous_witness:
  "[''lp__'', ''delta.1'', ''delta.2'', ''beta[1]''] \<noteq> []
   \<and> list_all well_formed_name [''lp__'', ''delta.1'', ''delta.2'', ''beta[1]'']
   \<and> \<not> reappears (map name_prefix [''lp__'', ''delta.1'', ''delta.2'', ''beta[1]''])
   \<and> well_shaped (NDArray [2, 4] [1, 2, 3, 4, 5, 6, 7, 8 :: int])
   \<and> stan_to_dict_numpy [''lp__'', ''delta.1'', ''delta.2'', ''beta[1]'']
         (NDArray [2, 4] [1, 2, 3, 4, 5, 6, 7, 8 :: int]) =
       Inr [(Some ''lp__'', NDArray [2, 1] [1, 5]),
            (Some ''delta'', NDArray [2, 2] [2, 3, 6, 7]),
            (Some ''beta'', NDArray [2, 1] [4, 8])]"
proof -
  let ?names = "[''lp__'', ''delta.1'', ''delta.2'', ''beta[1]'']"
  let ?dat = "NDArray [2, 4] [1, 2, 3, 4, 5, 6, 7, 8 :: int]"
  have h1: "?names \<noteq> []" by simp
  have h2: "\<forall>c\<in>set ?names. well_formed_name c" by (simp add: well_formed_name_def)
  have h3: "\<not> reappears (map name_prefix ?names)"
    by (simp add: reappears_iff name_prefix_def)
  have h4: "well_shaped ?dat" by (simp add: well_shaped_def)
  have h5: "shape ?dat = [length ?names] \<or> shape ?dat = [2, length ?names]" by simp
  have ev: "map (\<lambda>b. (Some b, select_columns ?dat (columns_of ?names b)))
              (first_occurrences (map name_prefix ?names)) =
            [(Some ''lp__'', NDArray [2, 1] [1, 5]),
             (Some ''delta'', NDArray [2, 2] [2, 3, 6, 7]),
             (Some ''beta'', NDArray [2, 1] [4, 8])]"
    by code_simp
  from stan_to_dict_numpy_contiguous [OF h1 h2 h3 h4 h5]
  have "stan_to_dict_numpy ?names ?dat =
          Inr (map (\<lambda>b. (Some b, select_columns ?dat (columns_of ?names b)))
                 (first_occurrences (map name_prefix ?names)))"
    by (rule conjunct1)
  moreover have "list_all well_formed_name ?names"
    using h2 by (simp only: list_all_iff)
  ultimately show ?thesis using ev h1 h3 h4 by (simp only: simp_thms)
qed

text \<open>
  Without the non-emptiness the claim fails: for no column names at all the decoder
  still closes a run and returns one entry under the key \<open>None\<close>, while there is no
  base name.
\<close>

theorem stan_to_dict_numpy_contiguous_counterexample:
  "\<not> reappears (map name_prefix ([] :: string list))
   \<and> well_shaped (NDArray [0] ([] :: int list))
   \<and> shape (NDArray [0] ([] :: int list)) = [length ([] :: string list)]
   \<and> stan_to_dict_numpy [] (NDArray [0] ([] :: int list)) = Inr [(None, NDArray [0] [])]
   \<and> map fst [(None :: string option, NDArray [0] ([] :: int list))] \<noteq>
       map Some (first_occurrences (map name_prefix ([] :: string list)))"
  by (simp add: reappears_def well_shaped_def stan_to_dict_numpy_def scan_finish_def close_run_def)

lemma scan_columns_no_axes:
  assumes "shape dat = []"
  shows "(\<exists>prev' s' e'. scan_columns False dat ([], prev, s, e) cs = Inr ([], prev', s', e'))
       \<or> scan_columns False dat ([], prev, s, e) cs = Inl (IndexError ''too many indices for array'')"
proof (induction cs arbitrary: prev s e)
  case Nil
  then show ?case by simp
next
  case (Cons c cs)
  obtain xs where dat: "dat = NDArray [] xs" using assms by (cases dat) simp
  show ?case
  proof (cases "Some (base_name c) \<noteq> (case prev of None \<Rightarrow> Some (base_name c) | Some p \<Rightarrow> Some p)")
    case True
    then show ?thesis by (simp add: Let_def close_run_def dat)
  next
    case False
    then have "scan_columns False dat ([], prev, s, e) (c # cs) =
      scan_columns False dat ([], (case prev of None \<Rightarrow> Some (base_name c) | Some p \<Rightarrow> Some p), s, Suc e) cs"
      by (simp add: Let_def)
    with Cons.IH [of "(case prev of None \<Rightarrow> Some (base_name c) | Some p \<Rightarrow> Some p)" s "Suc e"]
    show ?thesis by auto
  qed
qed

lemma stan_to_dict_numpy_no_axes:
  assumes "shape dat = []"
  shows "stan_to_dict_numpy cnames dat = Inl (IndexError ''too many indices for array'')"
proof -
  obtain xs where dat: "dat = NDArray [] xs" using assms by (cases dat) simp
  from scan_columns_no_axes [OF assms, where prev = None and s = 0 and e = 0 and cs = cnames]
  show ?thesis
    by (auto simp: stan_to_dict_numpy_def assms scan_finish_def close_run_def dat)
qed

text \<open>
  Claim C2. For every sequence of column names in which a base name, as the decoder
  splits it off, reappears after a different base name, the decoder returns no
  mapping: it raises, and for every buffer with at least one axis what it raises is
  \<^verbatim>\<open>RuntimeError("Found repeated column name")\<close> (an array without axes cannot be
  sliced, which raises before the repetition is met).
\<close>

theorem stan_to_dict_numpy_repeated:
  assumes "reappears (map base_name cnames)"
  shows "(\<exists>e. stan_to_dict_numpy cnames dat = Inl e)
       \<and> (shape dat \<noteq> [] \<longrightarrow>
            stan_to_dict_numpy cnames dat = Inl (RuntimeError ''Found repeated column name''))"
proof (cases "shape dat = []")
  case True
  then show ?thesis by (simp add: stan_to_dict_numpy_no_axes)
next
  case False
  have "stan_to_dict_numpy cnames dat = Inl (RuntimeError ''Found repeated column name'')"
  proof (cases cnames)
    case Nil
    with assms show ?thesis by (simp add: reappears_def)
  next
    case (Cons c cs)
    from assms have "\<not> distinct (remdups_adj (map base_name cnames))"
      using reappears_iff by blast
    then have nd: "\<not> distinct (remdups_adj (map base_name (c # cs)))"
      unfolding Cons .
    have "stan_to_dict_numpy (c # cs) dat = Inl (RuntimeError ''Found repeated column name'')"
      by (simp only: stan_to_dict_numpy_Cons [OF False] nd if_False)
    with Cons show ?thesis by (simp only:)
  qed
  then show ?thesis by simp
qed

theorem stan_to_dict_numpy_repeated_witness:
  "reappears (map base_name [''delta.1'', ''k'', ''delta.2''])
   \<and> shape (NDArray [2, 3] [1, 2, 3, 4, 5, 6 :: int]) \<noteq> []
   \<and> stan_to_dict_numpy [''delta.1'', ''k'', ''delta.2''] (NDArray [2, 3] [1, 2, 3, 4, 5, 6 :: int]) =
       Inl (RuntimeError ''Found repeated column name'')"
proof -
  have h1: "shape (NDArray [2, 3] [1, 2, 3, 4, 5, 6 :: int]) \<noteq> []" by simp
  have h2: "reappears (map base_name [''delta.1'', ''k'', ''delta.2''])"
    by (simp add: reappears_iff base_name_eq)
  from stan_to_dict_numpy_repeated [OF h2, of "NDArray [2, 3] [1, 2, 3, 4, 5, 6 :: int]"] h1
  have "stan_to_dict_numpy [''delta.1'', ''k'', ''delta.2''] (NDArray [2, 3] [1, 2, 3, 4, 5, 6 :: int]) =
       Inl (RuntimeError ''Found repeated column name'')"
    by blast
  with h1 h2 show ?thesis by (intro conjI)
qed

text \<open>
  Claim C10. For an empty sequence of column names the decoder never returns an empty
  mapping. For every buffer with at least one axis it returns a mapping with exactly
  one entry: the key is \<open>None\<close> and the value is the slice \<open>[0:0]\<close> of the buffer
  along the sliced axis, which has no elements.
\<close>

theorem stan_to_dict_numpy_no_columns:
  "stan_to_dict_numpy [] dat \<noteq> Inr []
   \<and> (shape dat \<noteq> [] \<longrightarrow>
        (\<exists>v. stan_to_dict_numpy [] dat = Inr [(None, v)]
           \<and> (if length (shape dat) > 1 then slice_axis1 dat 0 0 else slice_axis0 dat 0 0) = Inr v
           \<and> elems v = []
           \<and> shape v = (shape dat)[(if length (shape dat) > 1 then 1 else 0) := 0]))"
proof (cases "shape dat = []")
  case True
  then show ?thesis by (simp add: stan_to_dict_numpy_no_axes)
next
  case False
  obtain sh xs where dat: "dat = NDArray sh xs" by (cases dat)
  with False obtain n rest where sh: "sh = n # rest" by (cases sh) auto
  show ?thesis
  proof (cases rest)
    case Nil
    with dat sh show ?thesis
      by (simp add: stan_to_dict_numpy_def scan_finish_def close_run_def)
  next
    case (Cons c rest')
    with dat sh show ?thesis
      by (simp add: stan_to_dict_numpy_def scan_finish_def close_run_def)
  qed
qed

theorem stan_to_dict_numpy_no_columns_witness:
  "shape (NDArray [2, 3] [1, 2, 3, 4, 5, 6 :: int]) \<noteq> []
   \<and> stan_to_dict_numpy [] (NDArray [2, 3] [1, 2, 3, 4, 5, 6 :: int]) = Inr [(None, NDArray [2, 0] [])]"
proof -
  have h: "shape (NDArray [2, 3] [1, 2, 3, 4, 5, 6 :: int]) \<noteq> []" by simp
  from stan_to_dict_numpy_no_columns [of "NDArray [2, 3] [1, 2, 3, 4, 5, 6 :: int]"] h
  obtain v where "stan_to_dict_numpy [] (NDArray [2, 3] [1, 2, 3, 4, 5, 6 :: int]) = Inr [(None, v)]"
    and "elems v = []" and "shape v = [2, 0]" by auto
  then show ?thesis by (cases v) simp
qed

section \<open>Verification of the posterior simplifier\<close>

lemma py_bind_simps [simp]:
  "py_bind (Inl e) f = Inl e"
  "py_bind (Inr x) f = f x"
  by (simp_all add: py_bind_def)

lemma py_bind_eq_Inr: "py_bind m f = Inr y \<longleftrightarrow> (\<exists>x. m = Inr x \<and> f x = Inr y)"
  by (cases m) simp_all

lemma dict_assign_frame:
  assumes "n \<le> length h" and "n \<le> d"
  shows "take n (dict_assign h d par arr) = take n h \<and> length h \<le> length (dict_assign h d par arr)"
  using assms by (simp add: dict_assign_def alloc_def split: obj.split)

lemma simplify_entry_frame:
  assumes "n \<le> length h" and "n \<le> out"
  shows "take n (snd (simplify_entry out par h)) = take n h
       \<and> length h \<le> length (snd (simplify_entry out par h))"
proof -
  have a: "take n (dict_assign h out par arr) = take n h"
     "length h \<le> length (dict_assign h out par arr)" for arr
    using dict_assign_frame [OF assms] by simp_all
  have b: "take n (dict_assign (dict_assign h out par arr) out par arr') = take n h"
     "length h \<le> length (dict_assign (dict_assign h out par arr) out par arr')" for arr arr'
    using dict_assign_frame [of n "dict_assign h out par arr" out par arr'] a [of arr] assms
    by simp_all
  show ?thesis
    by (simp add: simplify_entry_def Let_def a b split: sum.split)
qed

lemma simplify_loop_frame:
  assumes "n \<le> length h" and "n \<le> out"
  shows "take n (snd (simplify_loop out pars h)) = take n h"
  using assms
proof (induction pars arbitrary: h)
  case Nil
  then show ?case by simp
next
  case (Cons par pars)
  obtain r h' where step: "simplify_entry out par h = (r, h')" by (cases "simplify_entry out par h")
  with simplify_entry_frame [OF Cons.prems, of par]
  have h': "take n h' = take n h" "n \<le> length h'" using Cons.prems by simp_all
  show ?case
  proof (cases r)
    case None
    with step Cons.IH [of h'] h' Cons.prems show ?thesis by simp
  next
    case (Some e)
    with step h' show ?thesis by simp
  qed
qed

text \<open>
  Claim C9. The simplifier leaves its argument unchanged: every object of the store
  before the call, the dictionary \<open>params\<close> and the arrays bound in it among them,
  is the same object after the call, whether the call returns or raises; and the
  dictionary it returns is a new object, not one of the store before the call.
\<close>

theorem simplify_mcmc_results_frame:
  "take (length h) (snd (simplify_mcmc_results h params)) = h
   \<and> (case fst (simplify_mcmc_results h params) of Inl e \<Rightarrow> True | Inr out \<Rightarrow> length h \<le> out)"
proof (cases "deref h params")
  case (Inl e)
  then show ?thesis by (simp add: simplify_mcmc_results_def)
next
  case (Inr ob)
  show ?thesis
  proof (cases ob)
    case (ArrObj a)
    with Inr show ?thesis by (simp add: simplify_mcmc_results_def)
  next
    case (DictObj entries)
    define copy where "copy = fold (\<lambda>(k, v). AList.update k v) entries []"
    obtain r h2 where loop: "simplify_loop (length h) (map fst copy) (h @ [DictObj copy]) = (r, h2)"
      by (cases "simplify_loop (length h) (map fst copy) (h @ [DictObj copy])")
    have "take (length h) (snd (simplify_loop (length h) (map fst copy) (h @ [DictObj copy]))) = h"
      using simplify_loop_frame [of "length h" "h @ [DictObj copy]" "length h" "map fst copy"]
      by simp
    with loop have "take (length h) h2 = h" by simp
    with Inr DictObj loop show ?thesis
      by (cases r) (simp_all add: simplify_mcmc_results_def alloc_def copy_def)
  qed
qed

text \<open>
  The theorem at a dictionary that binds \<open>k\<close> to a \<open>3 \<times> 1\<close> array: the two
  objects of the input stay, the new dictionary and the reshaped array follow them.
\<close>

theorem simplify_mcmc_results_frame_witness:
  "snd (simplify_mcmc_results [ArrObj (NDArray [3, 1] [1, 2, 3]), DictObj [(''k'', 0)]] 1) =
     [ArrObj (NDArray [3, 1] [1, 2, 3]), DictObj [(''k'', 0)], DictObj [(''k'', 3)],
      ArrObj (NDArray [3] [1, 2, 3])]"
  using simplify_mcmc_results_frame [of "[ArrObj (NDArray [3, 1] [1, 2, 3]), DictObj [(''k'', 0)]]" 1]
  by (simp add: simplify_mcmc_results_def deref_def alloc_def simplify_entry_def dict_array_def
      dict_assign_def reshape_def array_size_def py_bind_def)

text \<open>
  Claim C3 at two inputs. The claim says that the array returned for \<open>delta\<close> has
  at least two axes. For a \<open>3 \<times> 1\<close> array bound to \<open>delta\<close> the returned dictionary
  binds \<open>delta\<close> to an array of shape \<open>[3]\<close>: the test for fewer than two axes reads
  the shape taken before the squeeze. For a vector of length 3 bound to \<open>delta\<close> the
  call raises \<^verbatim>\<open>IndexError\<close> at \<^verbatim>\<open>s[1]\<close> and returns nothing.
\<close>

theorem simplify_mcmc_results_delta:
  "simplify_mcmc_results [ArrObj (NDArray [3, 1] [1, 2, 3]), DictObj [(''delta'', 0)]] 1 =
     (Inr 2, [ArrObj (NDArray [3, 1] [1, 2, 3]), DictObj [(''delta'', 0)], DictObj [(''delta'', 3)],
              ArrObj (NDArray [3] [1, 2, 3])])
   \<and> bound_shape [ArrObj (NDArray [3, 1] [1, 2, 3]), DictObj [(''delta'', 0)], DictObj [(''delta'', 3)],
              ArrObj (NDArray [3] [1, 2, 3])] 2 ''delta'' = Inr [3]
   \<and> simplify_mcmc_results [ArrObj (NDArray [3] [1, 2, 3]), DictObj [(''delta'', 0)]] 1 =
     (Inl (IndexError ''tuple index out of range''),
      [ArrObj (NDArray [3] [1, 2, 3]), DictObj [(''delta'', 0)], DictObj [(''delta'', 0)]])"
  by (simp add: simplify_mcmc_results_def deref_def alloc_def simplify_entry_def dict_array_def
      dict_assign_def reshape_def array_size_def py_bind_def bound_shape_def)

section \<open>Verification of the custom-init sanitizer\<close>

text \<open>
  Claim C4 at two inputs. The claim says that the sanitizer never raises. With the
  default init of a backend and a custom init that has no \<open>delta\<close> it raises
  \<^verbatim>\<open>KeyError\<close>, and with a custom \<open>delta\<close> that is a list it raises
  \<^verbatim>\<open>AttributeError\<close>, whatever \<^verbatim>\<open>float\<close> does: only the scalar parameters are
  read inside a handler.
\<close>

theorem sanitize_custom_inits_raises:
  "sanitize_custom_inits to_float
     [''k'' \<mapsto> PyFloat 0, ''m'' \<mapsto> PyFloat 0, ''sigma_obs'' \<mapsto> PyFloat 1,
      ''delta'' \<mapsto> PyArray (NDArray [2] [0, 0]), ''beta'' \<mapsto> PyArray (NDArray [1] [0])]
     [''k'' \<mapsto> PyStr ''fast'']
   = Inl (KeyError ''delta'')
   \<and> sanitize_custom_inits to_float
     [''k'' \<mapsto> PyFloat 0, ''m'' \<mapsto> PyFloat 0, ''sigma_obs'' \<mapsto> PyFloat 1,
      ''delta'' \<mapsto> PyArray (NDArray [2] [0, 0]), ''beta'' \<mapsto> PyArray (NDArray [1] [0])]
     [''delta'' \<mapsto> PyList [PyFloat 0, PyFloat 0], ''beta'' \<mapsto> PyArray (NDArray [1] [0])]
   = Inl (AttributeError ''shape'')"
  by (simp add: sanitize_custom_inits_def sanitize_scalar_def sanitize_vector_def
        py_item_def py_get_def split: sum.split)

lemma scalars_return:
  assumes "default_inits ''k'' = Some dk" "default_inits ''m'' = Some dm"
    "default_inits ''sigma_obs'' = Some ds"
  shows "\<exists>sanitized. for_each (sanitize_scalar to_float default_inits custom_inits)
                [''k'', ''m'', ''sigma_obs''] Map.empty = Inr sanitized"
  using assms
  by (simp add: sanitize_scalar_def py_item_def split: sum.split)

text \<open>
  Claim C5. When the default init has the three scalar parameters and binds \<open>delta\<close>
  and \<open>beta\<close> to arrays, and the custom init binds both to arrays, the sanitizer
  returns, and for each of the two it returns the custom array when its shape equals
  the shape of the default array and the default array otherwise; so the custom array
  is returned exactly when the shapes are equal.
\<close>

theorem sanitize_custom_inits_vectors:
  assumes "default_inits ''k'' = Some dk" and "default_inits ''m'' = Some dm"
    and "default_inits ''sigma_obs'' = Some ds"
    and "default_inits ''delta'' = Some (PyArray dd)" and "default_inits ''beta'' = Some (PyArray db)"
    and "custom_inits ''delta'' = Some (PyArray cd)" and "custom_inits ''beta'' = Some (PyArray cb)"
  shows "\<exists>sanitized. sanitize_custom_inits to_float default_inits custom_inits = Inr sanitized
     \<and> sanitized ''delta'' = Some (if shape dd = shape cd then PyArray cd else PyArray dd)
     \<and> sanitized ''beta'' = Some (if shape db = shape cb then PyArray cb else PyArray db)
     \<and> (sanitized ''delta'' = Some (PyArray cd) \<longleftrightarrow> shape cd = shape dd)
     \<and> (sanitized ''beta'' = Some (PyArray cb) \<longleftrightarrow> shape cb = shape db)"
proof -
  from scalars_return [OF assms(1-3)] obtain s0 where
    s0: "for_each (sanitize_scalar to_float default_inits custom_inits)
                [''k'', ''m'', ''sigma_obs''] Map.empty = Inr s0" by blast
  show ?thesis
    using assms(4-7) s0
    by (auto simp: sanitize_custom_inits_def sanitize_vector_def py_item_def)
qed

text \<open>
  The theorem at a custom \<open>delta\<close> of the default's shape and a custom \<open>beta\<close> of
  another shape.
\<close>

theorem sanitize_custom_inits_vectors_witness:
  "\<exists>sanitized.
     sanitize_custom_inits float_of_number example_init
       [''k'' \<mapsto> PyStr ''fast'', ''delta'' \<mapsto> PyArray (NDArray [2] [1, 1]),
        ''beta'' \<mapsto> PyArray (NDArray [3] [0, 0, 0])] = Inr sanitized
     \<and> sanitized ''delta'' = Some (PyArray (NDArray [2] [1, 1]))
     \<and> sanitized ''beta'' = Some (PyArray (NDArray [1] [0]))"
proof -
  define custom where "custom = [''k'' \<mapsto> PyStr ''fast'', ''delta'' \<mapsto> PyArray (NDArray [2] [1, 1]),
        ''beta'' \<mapsto> PyArray (NDArray [3] [0, 0, 0])]"
  have d: "example_init ''k'' = Some (PyFloat 0)" "example_init ''m'' = Some (PyFloat 0)"
    "example_init ''sigma_obs'' = Some (PyFloat 1)"
    "example_init ''delta'' = Some (PyArray (NDArray [2] [0, 0]))"
    "example_init ''beta'' = Some (PyArray (NDArray [1] [0]))"
    by (simp_all add: example_init_def)
  have c: "custom ''delta'' = Some (PyArray (NDArray [2] [1, 1]))"
    "custom ''beta'' = Some (PyArray (NDArray [3] [0, 0, 0]))"
    by (simp_all add: custom_def)
  from sanitize_custom_inits_vectors [OF d c, of float_of_number]
  have "\<exists>sanitized.
     sanitize_custom_inits float_of_number example_init custom = Inr sanitized
     \<and> sanitized ''delta'' = Some (PyArray (NDArray [2] [1, 1]))
     \<and> sanitized ''beta'' = Some (PyArray (NDArray [1] [0]))"
    by auto
  then show ?thesis unfolding custom_def .
qed

section \<open>Verification of the CmdStanPy backend\<close>

lemma use_custom_init_kwargs:
  assumes "use_custom_init to_float stan_init kwargs = Inr (stan_init', kwargs')"
    and "key \<noteq> ''init''"
  shows "kwargs' key = kwargs key"
  using assms
  by (auto simp: use_custom_init_def py_bind_eq_Inr split: if_splits option.splits pyval.splits)

lemma prepare_data_T:
  assumes "prepare_data init dat = Inr (inits_list, data_list)"
  shows "map_of data_list ''T'' = dat ''T''"
  using assms unfolding prepare_data_def py_bind_eq_Inr
  by (auto simp: py_item_def split: option.splits)

lemma fit_args_algorithm:
  assumes "fit_args to_float stan_init stan_data kwargs = Inr args"
  shows "(\<forall>t. kwargs ''algorithm'' = None \<and> stan_data ''T'' = Some (PyInt t) \<longrightarrow>
            args ''algorithm'' = Some (PyStr (if t < 100 then ''Newton'' else ''LBFGS'')))
       \<and> (\<forall>a. kwargs ''algorithm'' = Some a \<longrightarrow> args ''algorithm'' = Some a)"
proof -
  from assms obtain si kw il dl T small where
    u: "use_custom_init to_float stan_init kwargs = Inr (si, kw)"
    and p: "prepare_data si stan_data = Inr (il, dl)"
    and t: "py_item (map_of dl) ''T'' = Inr T"
    and l: "py_less T 100 = Inr small"
    and a: "args = [''data'' \<mapsto> PyDict dl, ''inits'' \<mapsto> PyDict il,
             ''algorithm'' \<mapsto> PyStr (if small then ''Newton'' else ''LBFGS''),
             ''iter'' \<mapsto> PyInt 10000] ++ kw"
    by (auto simp: fit_args_def py_bind_eq_Inr split: prod.splits)
  have kw: "kw ''algorithm'' = kwargs ''algorithm''"
    using use_custom_init_kwargs [OF u] by simp
  have T: "stan_data ''T'' = Some T"
    using t prepare_data_T [OF p] by (simp add: py_item_def split: option.splits)
  show ?thesis
  proof (intro conjI allI impI)
    fix t assume "kwargs ''algorithm'' = None \<and> stan_data ''T'' = Some (PyInt t)"
    with T l kw a show "args ''algorithm'' = Some (PyStr (if t < 100 then ''Newton'' else ''LBFGS''))"
      by (auto simp: map_add_def)
  next
    fix b assume "kwargs ''algorithm'' = Some b"
    with kw a show "args ''algorithm'' = Some b" by (simp add: map_add_def)
  qed
qed


lemma fit_after_args:
  assumes "fit_args to_float stan_init stan_data kwargs = Inr args"
  shows "fit optimize to_float self stan_init stan_data kwargs =
     (case optimize (model self) args of
             (Inr sf, m1) \<Rightarrow> (fit_params sf, self\<lparr>model := m1, stan_fit := Some sf\<rparr>)
           | (Inl (RuntimeError msg), m1) \<Rightarrow>
               if \<not> newton_fallback self \<or> args ''algorithm'' = Some (PyStr ''Newton'')
               then (Inl (RuntimeError msg), self\<lparr>model := m1\<rparr>)
               else
                 (case optimize m1 (args(''algorithm'' \<mapsto> PyStr ''Newton'')) of
                    (Inr sf, m2) \<Rightarrow>
                      (fit_params sf,
                       self\<lparr>model := m2, stan_fit := Some sf,
                            warnings := warnings self @
                              [''Optimization terminated abnormally. Falling back to Newton.'']\<rparr>)
                  | (Inl e2, m2) \<Rightarrow>
                      (Inl e2,
                       self\<lparr>model := m2,
                            warnings := warnings self @
                              [''Optimization terminated abnormally. Falling back to Newton.'']\<rparr>))
           | (Inl e, m1) \<Rightarrow> (Inl e, self\<lparr>model := m1\<rparr>))"
  by (simp add: fit_def assms)

text \<open>
  Claim C6, as amended. Whenever \<^verbatim>\<open>fit\<close> reaches the optimizer with arguments
  \<open>args\<close>: the algorithm is Newton for an observation count below 100 and LBFGS
  otherwise, unless the caller passes an algorithm, which is used then. When the first
  run returns, its result is decoded. When it raises \<^verbatim>\<open>RuntimeError\<close> and the
  fallback is off or the algorithm was Newton, the same error is raised, after that
  one run and without a warning. Otherwise the warning is logged and the optimizer
  runs exactly once more, with Newton and the other arguments as before: the result
  of that run is decoded and returned, or its exception is raised.
\<close>

theorem fit_fallback:
  assumes "fit_args to_float stan_init stan_data kwargs = Inr args"
  shows "(\<forall>t. kwargs ''algorithm'' = None \<and> stan_data ''T'' = Some (PyInt t) \<longrightarrow>
            args ''algorithm'' = Some (PyStr (if t < 100 then ''Newton'' else ''LBFGS'')))
       \<and> (\<forall>a. kwargs ''algorithm'' = Some a \<longrightarrow> args ''algorithm'' = Some a)
       \<and> (\<forall>sf m1. optimize (model self) args = (Inr sf, m1) \<longrightarrow>
            fit optimize to_float self stan_init stan_data kwargs =
              (fit_params sf, self\<lparr>model := m1, stan_fit := Some sf\<rparr>))
       \<and> (\<forall>msg m1. optimize (model self) args = (Inl (RuntimeError msg), m1)
              \<and> (\<not> newton_fallback self \<or> args ''algorithm'' = Some (PyStr ''Newton'')) \<longrightarrow>
            fit optimize to_float self stan_init stan_data kwargs =
              (Inl (RuntimeError msg), self\<lparr>model := m1\<rparr>))
       \<and> (\<forall>msg m1 sf m2. optimize (model self) args = (Inl (RuntimeError msg), m1)
              \<and> newton_fallback self \<and> args ''algorithm'' \<noteq> Some (PyStr ''Newton'')
              \<and> optimize m1 (args(''algorithm'' \<mapsto> PyStr ''Newton'')) = (Inr sf, m2) \<longrightarrow>
            fit optimize to_float self stan_init stan_data kwargs =
              (fit_params sf,
               self\<lparr>model := m2, stan_fit := Some sf,
                    warnings := warnings self @
                      [''Optimization terminated abnormally. Falling back to Newton.'']\<rparr>))
       \<and> (\<forall>msg m1 e2 m2. optimize (model self) args = (Inl (RuntimeError msg), m1)
              \<and> newton_fallback self \<and> args ''algorithm'' \<noteq> Some (PyStr ''Newton'')
              \<and> optimize m1 (args(''algorithm'' \<mapsto> PyStr ''Newton'')) = (Inl e2, m2) \<longrightarrow>
            fit optimize to_float self stan_init stan_data kwargs =
              (Inl e2,
               self\<lparr>model := m2,
                    warnings := warnings self @
                      [''Optimization terminated abnormally. Falling back to Newton.'']\<rparr>))"
proof -
  note alg = fit_args_algorithm [OF assms]
  note run = fit_after_args [OF assms, of optimize self]
  have c3: "\<forall>sf m1. optimize (model self) args = (Inr sf, m1) \<longrightarrow>
            fit optimize to_float self stan_init stan_data kwargs =
              (fit_params sf, self\<lparr>model := m1, stan_fit := Some sf\<rparr>)"
    by (simp add: run)
  have c4: "\<forall>msg m1. optimize (model self) args = (Inl (RuntimeError msg), m1)
              \<and> (\<not> newton_fallback self \<or> args ''algorithm'' = Some (PyStr ''Newton'')) \<longrightarrow>
            fit optimize to_float self stan_init stan_data kwargs =
              (Inl (RuntimeError msg), self\<lparr>model := m1\<rparr>)"
    by (auto simp: run)
  have c5: "\<forall>msg m1 sf m2. optimize (model self) args = (Inl (RuntimeError msg), m1)
              \<and> newton_fallback self \<and> args ''algorithm'' \<noteq> Some (PyStr ''Newton'')
              \<and> optimize m1 (args(''algorithm'' \<mapsto> PyStr ''Newton'')) = (Inr sf, m2) \<longrightarrow>
            fit optimize to_float self stan_init stan_data kwargs =
              (fit_params sf,
               self\<lparr>model := m2, stan_fit := Some sf,
                    warnings := warnings self @
                      [''Optimization terminated abnormally. Falling back to Newton.'']\<rparr>)"
    by (simp add: run)
  have c6: "\<forall>msg m1 e2 m2. optimize (model self) args = (Inl (RuntimeError msg), m1)
              \<and> newton_fallback self \<and> args ''algorithm'' \<noteq> Some (PyStr ''Newton'')
              \<and> optimize m1 (args(''algorithm'' \<mapsto> PyStr ''Newton'')) = (Inl e2, m2) \<longrightarrow>
            fit optimize to_float self stan_init stan_data kwargs =
              (Inl e2,
               self\<lparr>model := m2,
                    warnings := warnings self @
                      [''Optimization terminated abnormally. Falling back to Newton.'']\<rparr>)"
    by (simp add: run)
  from alg c3 c4 c5 c6 show ?thesis by blast
qed

lemma example_fit_args:
  "kwargs ''init'' = None \<Longrightarrow> \<exists>args. fit_args float_of_number example_init (example_data T) kwargs = Inr args"
  by (simp add: fit_args_def use_custom_init_def prepare_data_def example_init_def example_data_def
      py_item_def)

lemma example_fit_params:
  "fit_params example_fit =
     Inr [(Some ''lp__'', NDArray [1, 1] [5]), (Some ''k'', NDArray [1, 1] [1]),
          (Some ''delta'', NDArray [1, 2] [2, 3])]"
  by (simp add: fit_params_def example_fit_def stan_to_dict_numpy_def scan_finish_def close_run_def
      base_name_def reshape_row_def array_size_def Let_def)

text \<open>
  The theorem for 150 observations and an engine that fails unless Newton is
  requested: with the fallback the engine is called for LBFGS and then for Newton and
  one warning is logged, without the fallback the error of the only call is raised;
  for 10 observations Newton is called at once.
\<close>

theorem fit_fallback_witness:
  "fit newton_only float_of_number (example_backend True) example_init (example_data 150) Map.empty =
     (Inr [(Some ''lp__'', NDArray [1, 1] [5]), (Some ''k'', NDArray [1, 1] [1]),
           (Some ''delta'', NDArray [1, 2] [2, 3])],
      \<lparr>model = [Some (PyStr ''LBFGS''), Some (PyStr ''Newton'')], stan_fit = Some example_fit,
       newton_fallback = True,
       warnings = [''Optimization terminated abnormally. Falling back to Newton.'']\<rparr>)
   \<and> fit newton_only float_of_number (example_backend False) example_init (example_data 150) Map.empty =
     (Inl (RuntimeError ''Error during optimization''),
      \<lparr>model = [Some (PyStr ''LBFGS'')], stan_fit = None, newton_fallback = False, warnings = []\<rparr>)
   \<and> fit newton_only float_of_number (example_backend True) example_init (example_data 10) Map.empty =
     (Inr [(Some ''lp__'', NDArray [1, 1] [5]), (Some ''k'', NDArray [1, 1] [1]),
           (Some ''delta'', NDArray [1, 2] [2, 3])],
      \<lparr>model = [Some (PyStr ''Newton'')], stan_fit = Some example_fit,
       newton_fallback = True, warnings = []\<rparr>)"
proof -
  obtain args where A: "fit_args float_of_number example_init (example_data 150) Map.empty = Inr args"
    using example_fit_args [of Map.empty 150] by auto
  have T: "example_data 150 ''T'' = Some (PyInt 150)" by (simp add: example_data_def)
  from fit_fallback [OF A, of newton_only "example_backend True"] T
  have alg: "args ''algorithm'' = Some (PyStr ''LBFGS'')" by simp
  have call1: "newton_only (model (example_backend b)) args =
                 (Inl (RuntimeError ''Error during optimization''), [Some (PyStr ''LBFGS'')])" for b
    by (simp add: newton_only_def alg example_backend_def)
  have call2: "newton_only [Some (PyStr ''LBFGS'')] (args(''algorithm'' \<mapsto> PyStr ''Newton'')) =
                 (Inr example_fit, [Some (PyStr ''LBFGS''), Some (PyStr ''Newton'')])"
    by (simp add: newton_only_def)
  have on: "newton_fallback (example_backend True)" and off: "\<not> newton_fallback (example_backend False)"
    by (simp_all add: example_backend_def)
  from fit_fallback [OF A, of newton_only "example_backend True"] call1 [of True] call2 on alg
  have r1: "fit newton_only float_of_number (example_backend True) example_init (example_data 150) Map.empty =
     (fit_params example_fit,
      (example_backend True)\<lparr>model := [Some (PyStr ''LBFGS''), Some (PyStr ''Newton'')],
          stan_fit := Some example_fit,
          warnings := warnings (example_backend True) @
             [''Optimization terminated abnormally. Falling back to Newton.'']\<rparr>)"
    by simp
  from fit_fallback [OF A, of newton_only "example_backend False"] call1 [of False] off
  have r2: "fit newton_only float_of_number (example_backend False) example_init (example_data 150) Map.empty =
     (Inl (RuntimeError ''Error during optimization''),
      (example_backend False)\<lparr>model := [Some (PyStr ''LBFGS'')]\<rparr>)"
    by simp
  obtain args' where B: "fit_args float_of_number example_init (example_data 10) Map.empty = Inr args'"
    using example_fit_args [of Map.empty 10] by auto
  have T': "example_data 10 ''T'' = Some (PyInt 10)" by (simp add: example_data_def)
  from fit_fallback [OF B, of newton_only "example_backend True"] T'
  have alg': "args' ''algorithm'' = Some (PyStr ''Newton'')" by simp
  have call3: "newton_only (model (example_backend True)) args' =
                 (Inr example_fit, [Some (PyStr ''Newton'')])"
    by (simp add: newton_only_def alg' example_backend_def)
  from fit_fallback [OF B, of newton_only "example_backend True"] call3
  have r3: "fit newton_only float_of_number (example_backend True) example_init (example_data 10) Map.empty =
     (fit_params example_fit,
      (example_backend True)\<lparr>model := [Some (PyStr ''Newton'')], stan_fit := Some example_fit\<rparr>)"
    by simp
  show ?thesis
    unfolding r1 r2 r3 by (simp add: example_fit_params example_backend_def)
qed

text \<open>
  As stated, without the exception for the caller's choice, the claim fails: for 10
  observations and the keyword argument \<^verbatim>\<open>algorithm="LBFGS"\<close> the first run uses
  LBFGS, not the strategy for a small observation count.
\<close>

theorem fit_fallback_counterexample:
  "example_data 10 ''T'' = Some (PyInt 10)
   \<and> fit newton_only float_of_number (example_backend True) example_init (example_data 10)
       [''algorithm'' \<mapsto> PyStr ''LBFGS''] =
     (Inr [(Some ''lp__'', NDArray [1, 1] [5]), (Some ''k'', NDArray [1, 1] [1]),
           (Some ''delta'', NDArray [1, 2] [2, 3])],
      \<lparr>model = [Some (PyStr ''LBFGS''), Some (PyStr ''Newton'')], stan_fit = Some example_fit,
       newton_fallback = True,
       warnings = [''Optimization terminated abnormally. Falling back to Newton.'']\<rparr>)"
proof -
  obtain args where A: "fit_args float_of_number example_init (example_data 10)
       [''algorithm'' \<mapsto> PyStr ''LBFGS''] = Inr args"
    using example_fit_args [of "[''algorithm'' \<mapsto> PyStr ''LBFGS'']" 10] by auto
  from fit_args_algorithm [OF A]
  have alg: "args ''algorithm'' = Some (PyStr ''LBFGS'')" by simp
  have call1: "newton_only [] args =
                 (Inl (RuntimeError ''Error during optimization''), [Some (PyStr ''LBFGS'')])"
    by (simp add: newton_only_def alg)
  have call2: "newton_only [Some (PyStr ''LBFGS'')] (args(''algorithm'' \<mapsto> PyStr ''Newton'')) =
                 (Inr example_fit, [Some (PyStr ''LBFGS''), Some (PyStr ''Newton'')])"
    by (simp add: newton_only_def)
  show ?thesis
    unfolding fit_after_args [OF A, of newton_only "example_backend True"]
    by (simp add: call1 call2 alg example_fit_params example_backend_def example_data_def)
qed

section \<open>Verification of the sampling arguments\<close>

text \<open>
  Claim C8. Whenever \<^verbatim>\<open>sampling\<close> of the CmdStanPy backend reaches the sampler,
  the number of chains is the caller's, or 4 when the caller gives none; the number of
  draws after warmup is half the requested total (Python's \<^verbatim>\<open>samples // 2\<close>); and
  the number of warmup draws is the caller's, or that half when the caller gives none.
  Whenever \<^verbatim>\<open>sampling\<close> of the Numpyro backend builds its sampler, the warmup
  and the sample counts are both that half, and the number of chains is the caller's
  or 4.
\<close>

theorem sampling_draw_counts:
  "(\<forall>args. sampling_args to_float stan_init stan_data samples kwargs = Inr args \<longrightarrow>
       args ''chains'' = Some (case kwargs ''chains'' of None \<Rightarrow> PyInt 4 | Some c \<Rightarrow> c)
     \<and> args ''iter_sampling'' = Some (PyInt (samples div 2))
     \<and> args ''iter_warmup'' =
         Some (case kwargs ''iter_warmup'' of None \<Rightarrow> PyInt (samples div 2) | Some w \<Rightarrow> w))
   \<and> (\<forall>margs. numpyro_mcmc_args to_float prepare stan_init stan_data samples kwargs = Inr margs \<longrightarrow>
       margs ''num_warmup'' = Some (PyInt (samples div 2))
     \<and> margs ''num_samples'' = Some (PyInt (samples div 2))
     \<and> margs ''num_chains'' = Some (case kwargs ''num_chains'' of None \<Rightarrow> PyInt 4 | Some c \<Rightarrow> c))"
proof (intro conjI allI impI)
  fix args assume a: "sampling_args to_float stan_init stan_data samples kwargs = Inr args"
  then obtain si kw il dl where
    u: "use_custom_init to_float stan_init kwargs = Inr (si, kw)"
    and p: "prepare_data si stan_data = Inr (il, dl)"
    by (auto simp: sampling_args_def py_bind_eq_Inr split: prod.splits)
  have kw: "kw ''chains'' = kwargs ''chains''" "kw ''iter_warmup'' = kwargs ''iter_warmup''"
    using use_custom_init_kwargs [OF u] by simp_all
  from a u p have args: "args = [''data'' \<mapsto> PyDict dl, ''inits'' \<mapsto> PyDict il] ++
      (let kwargs2 = (if kw ''chains'' = None then kw(''chains'' \<mapsto> PyInt 4) else kw);
           kwargs3 = kwargs2(''iter_sampling'' \<mapsto> PyInt (samples div 2))
       in if kwargs3 ''iter_warmup'' = None then kwargs3(''iter_warmup'' \<mapsto> PyInt (samples div 2))
          else kwargs3)"
    by (simp add: sampling_args_def Let_def)
  show "args ''chains'' = Some (case kwargs ''chains'' of None \<Rightarrow> PyInt 4 | Some c \<Rightarrow> c)"
    unfolding args using kw by (auto simp: map_add_def Let_def split: option.splits)
  show "args ''iter_sampling'' = Some (PyInt (samples div 2))"
    unfolding args by (auto simp: map_add_def Let_def split: option.splits)
  show "args ''iter_warmup'' =
         Some (case kwargs ''iter_warmup'' of None \<Rightarrow> PyInt (samples div 2) | Some w \<Rightarrow> w)"
    unfolding args using kw by (auto simp: map_add_def Let_def split: option.splits)
next
  fix margs assume a: "numpyro_mcmc_args to_float prepare stan_init stan_data samples kwargs = Inr margs"
  then obtain si kw where
    u: "use_custom_init to_float stan_init kwargs = Inr (si, kw)"
    by (auto simp: numpyro_mcmc_args_def py_bind_eq_Inr split: prod.splits)
  have kw: "kw ''num_chains'' = kwargs ''num_chains''"
    using use_custom_init_kwargs [OF u] by simp
  from a u kw show "margs ''num_warmup'' = Some (PyInt (samples div 2))"
    by (auto simp: numpyro_mcmc_args_def py_bind_eq_Inr Let_def split: prod.splits)
  from a u kw show "margs ''num_samples'' = Some (PyInt (samples div 2))"
    by (auto simp: numpyro_mcmc_args_def py_bind_eq_Inr Let_def split: prod.splits)
  from a u kw show "margs ''num_chains'' = Some (case kwargs ''num_chains'' of None \<Rightarrow> PyInt 4 | Some c \<Rightarrow> c)"
    by (auto simp: numpyro_mcmc_args_def py_bind_eq_Inr Let_def numpyro_run_params_def py_item_def
        map_add_def split: prod.splits option.splits)
qed

lemma example_sampling_args:
  "kwargs ''init'' = None \<Longrightarrow>
   \<exists>args. sampling_args float_of_number example_init (example_data T) samples kwargs = Inr args"
  by (simp add: sampling_args_def use_custom_init_def prepare_data_def example_init_def
      example_data_def py_item_def Let_def)

text \<open>
  The theorem for 1000 requested draws without keyword arguments, for 7 requested
  draws with two chains and 100 warmup draws given by the caller, and for the Numpyro
  backend with a \<open>prepare\<close> that returns its arguments.
\<close>

theorem sampling_draw_counts_witness:
  "(\<exists>args. sampling_args float_of_number example_init (example_data 10) 1000 Map.empty = Inr args
      \<and> args ''chains'' = Some (PyInt 4) \<and> args ''iter_sampling'' = Some (PyInt 500)
      \<and> args ''iter_warmup'' = Some (PyInt 500))
   \<and> (\<exists>args. sampling_args float_of_number example_init (example_data 10) 7
         [''chains'' \<mapsto> PyInt 2, ''iter_warmup'' \<mapsto> PyInt 100] = Inr args
      \<and> args ''chains'' = Some (PyInt 2) \<and> args ''iter_sampling'' = Some (PyInt 3)
      \<and> args ''iter_warmup'' = Some (PyInt 100))
   \<and> (\<exists>margs. numpyro_mcmc_args float_of_number (\<lambda>init dat. Inr (init, dat))
         example_init (example_data 10) 1000 Map.empty = Inr margs
      \<and> margs ''num_warmup'' = Some (PyInt 500) \<and> margs ''num_samples'' = Some (PyInt 500)
      \<and> margs ''num_chains'' = Some (PyInt 4))"
proof -
  obtain a1 where a1: "sampling_args float_of_number example_init (example_data 10) 1000 Map.empty = Inr a1"
    using example_sampling_args [of Map.empty 10 1000] by auto
  obtain a2 where a2: "sampling_args float_of_number example_init (example_data 10) 7
         [''chains'' \<mapsto> PyInt 2, ''iter_warmup'' \<mapsto> PyInt 100] = Inr a2"
    using example_sampling_args [of "[''chains'' \<mapsto> PyInt 2, ''iter_warmup'' \<mapsto> PyInt 100]" 10 7]
    by auto
  obtain a3 where a3: "numpyro_mcmc_args float_of_number (\<lambda>init dat. Inr (init, dat))
         example_init (example_data 10) 1000 Map.empty = Inr a3"
    by (simp add: numpyro_mcmc_args_def use_custom_init_def numpyro_run_params_def py_item_def)
  from sampling_draw_counts [of float_of_number example_init "example_data 10" 1000 Map.empty
         "\<lambda>init dat. Inr (init, dat)"] a1 a3
  have "a1 ''chains'' = Some (PyInt 4) \<and> a1 ''iter_sampling'' = Some (PyInt 500)
      \<and> a1 ''iter_warmup'' = Some (PyInt 500)"
    and "a3 ''num_warmup'' = Some (PyInt 500) \<and> a3 ''num_samples'' = Some (PyInt 500)
      \<and> a3 ''num_chains'' = Some (PyInt 4)"
    by simp_all
  moreover from sampling_draw_counts [of float_of_number example_init "example_data 10" 7
         "[''chains'' \<mapsto> PyInt 2, ''iter_warmup'' \<mapsto> PyInt 100]"
         "\<lambda>init dat. Inr (init, dat)"] a2
  have "a2 ''chains'' = Some (PyInt 2) \<and> a2 ''iter_sampling'' = Some (PyInt 3)
      \<and> a2 ''iter_warmup'' = Some (PyInt 100)"
    by simp
  ultimately show ?thesis using a1 a2 a3 by blast
qed

section \<open>Verification of the backend registry\<close>

text \<open>
  Claim C7. For every string the registry lookup returns the CmdStanPy backend for
  \<^verbatim>\<open>CMDSTANPY\<close>, the Numpyro backend for \<^verbatim>\<open>NUMPYRO\<close>, and for any other
  string, whatever its case, it raises \<^verbatim>\<open>ValueError\<close> with a message that ends with
  that string; a class that is returned has the looked-up name as its type.
\<close>

theorem get_backend_class_lookup:
  "get_backend_class name =
     (if name = ''CMDSTANPY'' then Inr CmdStanPyBackend
      else if name = ''NUMPYRO'' then Inr NumpyroBackend
      else Inl (ValueError (''Unknown stan backend: '' @ name)))
   \<and> (\<forall>c. get_backend_class name = Inr c \<longrightarrow> get_type c = name)"
  by (auto simp: get_backend_class_def enum_member_def StanBackendEnum_def)

text \<open>
  The theorem at the two member names and at a name in lower case.
\<close>

theorem get_backend_class_lookup_witness:
  "get_backend_class ''CMDSTANPY'' = Inr CmdStanPyBackend
   \<and> get_type CmdStanPyBackend = ''CMDSTANPY''
   \<and> get_backend_class ''NUMPYRO'' = Inr NumpyroBackend
   \<and> get_backend_class ''cmdstanpy'' = Inl (ValueError ''Unknown stan backend: cmdstanpy'')"
  using get_backend_class_lookup [of "''CMDSTANPY''"] get_backend_class_lookup [of "''NUMPYRO''"]
    get_backend_class_lookup [of "''cmdstanpy''"]
  by simp

end
